theory Spec2Isabelle
  imports Main "HOL-Library.Word" "HOL-Library.Sublist"
begin

unbundle bit_operations_syntax

section \<open>Python values used by the protocol\<close>

text \<open>
  A Python \<open>bytes\<close> object is a list of 8-bit characters; the exceptions the code can raise
  are values of \<open>error\<close>, and a call that may raise returns \<open>error + 'a\<close>.
\<close>

type_synonym bytes = string

datatype error = ValueError | StructError | IndexError | KeyError | TypeError | UnicodeError

text \<open>\<open>data[i:j]\<close> for indices \<open>0 \<le> i\<close>, \<open>0 \<le> j\<close>: out of range positions are cut off.\<close>

definition bslice :: "bytes \<Rightarrow> nat \<Rightarrow> nat \<Rightarrow> bytes" where
  "bslice data i j = take (j - i) (drop i data)"

text \<open>
  \<open>struct.pack('L', v)\<close> and \<open>struct.unpack('L', b)\<close>. The code reads every such field from a
  slice of four bytes, so it runs only where the native unsigned long has four bytes, stored
  least significant byte first; that is the platform modelled here. Packing a value outside
  \<open>0 .. 2^32 - 1\<close> and unpacking a buffer that is not four bytes long raise \<open>struct.error\<close>.
\<close>

definition pack_L :: "int \<Rightarrow> error + bytes" where
  "pack_L v =
     (if 0 \<le> v \<and> v < 4294967296
      then Inr [char_of v, char_of (v div 256), char_of (v div 65536), char_of (v div 16777216)]
      else Inl StructError)"

fun unpack_L :: "bytes \<Rightarrow> error + int" where
  "unpack_L [b0, b1, b2, b3] =
     Inr (of_char b0 + 256 * of_char b1 + 65536 * of_char b2 + 16777216 * of_char b3)"
| "unpack_L _ = Inl StructError"

text \<open>
  \<open>zlib.crc32\<close>: the CRC-32 of the byte string (reflected polynomial \<open>0xEDB88320\<close>, initial
  value and final complement \<open>0xFFFFFFFF\<close>), as a non-negative integer below \<open>2^32\<close>.
\<close>

definition crc_shift :: "32 word \<Rightarrow> 32 word" where
  "crc_shift c = (if bit c 0 then drop_bit 1 c XOR 0xEDB88320 else drop_bit 1 c)"

definition crc_update :: "32 word \<Rightarrow> char \<Rightarrow> 32 word" where
  "crc_update c b = (crc_shift ^^ 8) (c XOR of_char b)"

definition crc32_word :: "bytes \<Rightarrow> 32 word" where
  "crc32_word data = foldl crc_update 0xFFFFFFFF data XOR 0xFFFFFFFF"

definition crc32 :: "bytes \<Rightarrow> int" where
  "crc32 data = uint (crc32_word data)"

text \<open>
  \<open>data.replace(old, new)\<close>: every occurrence of \<open>old\<close>, found from left to right without
  overlap, is replaced by \<open>new\<close>. For an empty \<open>old\<close> Python inserts \<open>new\<close> before every byte
  and at the end.
\<close>

function replace_scan :: "bytes \<Rightarrow> bytes \<Rightarrow> bytes \<Rightarrow> bytes" where
  "replace_scan old new [] = []"
| "replace_scan old new (x # xs) =
     (if old \<noteq> [] \<and> prefix old (x # xs)
      then new @ replace_scan old new (drop (length old) (x # xs))
      else x # replace_scan old new xs)"
  by pat_completeness auto
termination
  by (relation "measure (\<lambda>(old, new, data). length data)") (auto simp: neq_Nil_conv)

definition replace :: "bytes \<Rightarrow> bytes \<Rightarrow> bytes \<Rightarrow> bytes" where
  "replace data old new =
     (if old = [] then new @ concat (map (\<lambda>c. c # new) data) else replace_scan old new data)"

section \<open>protocol.py\<close>

definition BARKER :: bytes where
  "BARKER = ''BADFDADF''"

definition BEFORE_STUFF :: bytes where
  "BEFORE_STUFF = ''BADFDAD''"

definition AFTER_STUFF :: bytes where
  "AFTER_STUFF = ''BADFDADZ''"

definition BARKER_LENGTH :: nat where
  "BARKER_LENGTH = length BARKER"

definition stuff_data :: "bytes \<Rightarrow> bytes" where
  "stuff_data data = replace data BEFORE_STUFF AFTER_STUFF"

definition unstuff_data :: "bytes \<Rightarrow> bytes" where
  "unstuff_data data = replace data AFTER_STUFF BEFORE_STUFF"

text \<open>
  \<open>_extract_message\<close>: size field, stuffed payload, CRC field and the bytes after them.
  The size is read before the payload, the CRC after it; each read may raise.
\<close>

definition extract_message :: "bytes \<Rightarrow> nat \<Rightarrow> error + (bytes \<times> bytes)" where
  "extract_message data current_index =
     (case unpack_L (bslice data current_index (current_index + 4)) of
        Inl e \<Rightarrow> Inl e
      | Inr data_size \<Rightarrow>
          (let current_index = current_index + 4;
               stuffed_data = bslice data current_index (current_index + nat data_size);
               current_index = current_index + nat data_size
           in case unpack_L (bslice data current_index (current_index + 4)) of
                Inl e \<Rightarrow> Inl e
              | Inr crc \<Rightarrow>
                  (let current_index = current_index + 4;
                       redundant_bytes = drop current_index data
                   in if crc \<noteq> crc32 stuffed_data then Inl ValueError
                      else Inr (unstuff_data stuffed_data, redundant_bytes))))"

text \<open>
  The \<open>wrap_*\<close> functions on a \<open>bytes\<close> payload (a \<open>str\<close> payload is encoded to \<open>bytes\<close>
  first, by \<open>str_to_bytes\<close>). The fields are packed in the order of the source's
  statements, so the first failing \<open>struct.pack\<close> is the one that raises.
\<close>

definition wrap_reliable :: "bytes \<Rightarrow> int \<Rightarrow> error + bytes" where
  "wrap_reliable data message_id =
     (let packet_type = [char_of (0::nat)] in
      case pack_L message_id of Inl e \<Rightarrow> Inl e | Inr message_id \<Rightarrow>
      (let stuffed_data = stuff_data data in
       case pack_L (int (length stuffed_data)) of Inl e \<Rightarrow> Inl e | Inr data_size \<Rightarrow>
       case pack_L (crc32 stuffed_data) of Inl e \<Rightarrow> Inl e | Inr crc \<Rightarrow>
         Inr (BARKER @ packet_type @ message_id @ data_size @ stuffed_data @ crc)))"

definition wrap_unreliable :: "bytes \<Rightarrow> error + bytes" where
  "wrap_unreliable data =
     (let packet_type = [char_of (1::nat)];
          stuffed_data = stuff_data data in
      case pack_L (int (length stuffed_data)) of Inl e \<Rightarrow> Inl e | Inr data_size \<Rightarrow>
      case pack_L (crc32 stuffed_data) of Inl e \<Rightarrow> Inl e | Inr crc \<Rightarrow>
        Inr (BARKER @ packet_type @ data_size @ stuffed_data @ crc))"

definition wrap_reliable_stream :: "bytes \<Rightarrow> int \<Rightarrow> int \<Rightarrow> error + bytes" where
  "wrap_reliable_stream data message_id stream_id =
     (let packet_type = [char_of (2::nat)] in
      case pack_L message_id of Inl e \<Rightarrow> Inl e | Inr message_id \<Rightarrow>
      case pack_L stream_id of Inl e \<Rightarrow> Inl e | Inr stream_id \<Rightarrow>
      (let stuffed_data = stuff_data data in
       case pack_L (int (length stuffed_data)) of Inl e \<Rightarrow> Inl e | Inr data_size \<Rightarrow>
       case pack_L (crc32 stuffed_data) of Inl e \<Rightarrow> Inl e | Inr crc \<Rightarrow>
         Inr (BARKER @ packet_type @ message_id @ stream_id @ data_size @ stuffed_data @ crc)))"

definition wrap_unreliable_stream :: "bytes \<Rightarrow> int \<Rightarrow> error + bytes" where
  "wrap_unreliable_stream data stream_id =
     (let packet_type = [char_of (3::nat)] in
      case pack_L stream_id of Inl e \<Rightarrow> Inl e | Inr stream_id \<Rightarrow>
      (let stuffed_data = stuff_data data in
       case pack_L (int (length stuffed_data)) of Inl e \<Rightarrow> Inl e | Inr data_size \<Rightarrow>
       case pack_L (crc32 stuffed_data) of Inl e \<Rightarrow> Inl e | Inr crc \<Rightarrow>
         Inr (BARKER @ packet_type @ stream_id @ data_size @ stuffed_data @ crc)))"

definition wrap_ack :: "int \<Rightarrow> error + bytes" where
  "wrap_ack acked_message_id =
     (let packet_type = [char_of (4::nat)] in
      case pack_L acked_message_id of Inl e \<Rightarrow> Inl e | Inr acked_message_id \<Rightarrow>
        Inr (BARKER @ packet_type @ acked_message_id))"

text \<open>
  The tuple returned by \<open>unwrap\<close>:
  \<open>(message, message_id, stream_id, acked_message_id, redundant_bytes)\<close>, \<open>None\<close> as \<open>None\<close>.
\<close>

type_synonym unwrapped = "bytes option \<times> int option \<times> int option \<times> int option \<times> bytes"

definition unwrap_reliable :: "bytes \<Rightarrow> error + unwrapped" where
  "unwrap_reliable data =
     (let current_index = BARKER_LENGTH + 1 in
      case unpack_L (bslice data current_index (current_index + 4)) of Inl e \<Rightarrow> Inl e
      | Inr message_id \<Rightarrow>
      (let current_index = current_index + 4 in
       case extract_message data current_index of Inl e \<Rightarrow> Inl e
       | Inr (message, redundant_bytes) \<Rightarrow>
           Inr (Some message, Some message_id, None, None, redundant_bytes)))"

definition unwrap_unreliable :: "bytes \<Rightarrow> error + unwrapped" where
  "unwrap_unreliable data =
     (case extract_message data (BARKER_LENGTH + 1) of Inl e \<Rightarrow> Inl e
      | Inr (message, redundant_bytes) \<Rightarrow> Inr (Some message, None, None, None, redundant_bytes))"

definition unwrap_reliable_stream :: "bytes \<Rightarrow> error + unwrapped" where
  "unwrap_reliable_stream data =
     (let current_index = BARKER_LENGTH + 1 in
      case unpack_L (bslice data current_index (current_index + 4)) of Inl e \<Rightarrow> Inl e
      | Inr message_id \<Rightarrow>
      (let current_index = current_index + 4 in
       case unpack_L (bslice data current_index (current_index + 4)) of Inl e \<Rightarrow> Inl e
       | Inr stream_id \<Rightarrow>
       (let current_index = current_index + 4 in
        case extract_message data current_index of Inl e \<Rightarrow> Inl e
        | Inr (message, redundant_bytes) \<Rightarrow>
            Inr (Some message, Some message_id, Some stream_id, None, redundant_bytes))))"

definition unwrap_unreliable_stream :: "bytes \<Rightarrow> error + unwrapped" where
  "unwrap_unreliable_stream data =
     (let current_index = BARKER_LENGTH + 1 in
      case unpack_L (bslice data current_index (current_index + 4)) of Inl e \<Rightarrow> Inl e
      | Inr stream_id \<Rightarrow>
      (let current_index = current_index + 4 in
       case extract_message data current_index of Inl e \<Rightarrow> Inl e
       | Inr (message, redundant_bytes) \<Rightarrow>
           Inr (Some message, None, Some stream_id, None, redundant_bytes)))"

definition unwrap_ack :: "bytes \<Rightarrow> error + unwrapped" where
  "unwrap_ack data =
     (let current_index = BARKER_LENGTH + 1 in
      case unpack_L (bslice data current_index (current_index + 4)) of Inl e \<Rightarrow> Inl e
      | Inr acked_message_id \<Rightarrow>
      (let current_index = current_index + 4;
           redundant_bytes = drop current_index data
       in Inr (None, None, None, Some acked_message_id, redundant_bytes)))"

text \<open>\<open>PACKET_TYPE_TO_UNWRAPPER[packet_type]\<close>: a missing key raises \<open>KeyError\<close>.\<close>

definition PACKET_TYPE_TO_UNWRAPPER :: "nat \<Rightarrow> error + (bytes \<Rightarrow> error + unwrapped)" where
  "PACKET_TYPE_TO_UNWRAPPER packet_type =
     (if packet_type = 0 then Inr unwrap_reliable
      else if packet_type = 1 then Inr unwrap_unreliable
      else if packet_type = 2 then Inr unwrap_reliable_stream
      else if packet_type = 3 then Inr unwrap_unreliable_stream
      else if packet_type = 4 then Inr unwrap_ack
      else Inl KeyError)"

text \<open>
  The body of the \<open>try\<close> block of \<open>unwrap\<close>, with the exception each statement raises, and
  \<open>unwrap\<close> itself, whose \<open>except Exception\<close> turns every one of them into \<open>ValueError\<close>.
\<close>

definition unwrap_body :: "bytes \<Rightarrow> error + unwrapped" where
  "unwrap_body data =
     (if \<not> prefix BARKER data then Inl ValueError
      else if \<not> BARKER_LENGTH < length data then Inl IndexError
      else case PACKET_TYPE_TO_UNWRAPPER (of_char (data ! BARKER_LENGTH)) of
             Inl e \<Rightarrow> Inl e
           | Inr unwrapper \<Rightarrow> unwrapper data)"

definition unwrap :: "bytes \<Rightarrow> error + unwrapped" where
  "unwrap data = (case unwrap_body data of Inl ex \<Rightarrow> Inl ValueError | Inr r \<Rightarrow> Inr r)"

section \<open>Python strings and UTF-8\<close>

text \<open>
  A Python \<open>str\<close> is its list of code points. \<open>bytearray(data, 'utf8')\<close> encodes it and
  \<open>bytes.decode('utf8')\<close> decodes it; both are strict, so surrogates, overlong forms and
  broken sequences raise.
\<close>

type_synonym pystr = "nat list"

definition byte :: "nat \<Rightarrow> char" where
  "byte n = char_of n"

fun encode_code_point :: "nat \<Rightarrow> error + bytes" where
  "encode_code_point cp =
     (if cp < 0x80 then Inr [byte cp]
      else if cp < 0x800 then Inr [byte (0xC0 + cp div 64), byte (0x80 + cp mod 64)]
      else if 0xD800 \<le> cp \<and> cp \<le> 0xDFFF then Inl UnicodeError
      else if cp < 0x10000
      then Inr [byte (0xE0 + cp div 4096), byte (0x80 + cp div 64 mod 64), byte (0x80 + cp mod 64)]
      else if cp < 0x110000
      then Inr [byte (0xF0 + cp div 262144), byte (0x80 + cp div 4096 mod 64),
                byte (0x80 + cp div 64 mod 64), byte (0x80 + cp mod 64)]
      else Inl UnicodeError)"

fun str_to_bytes :: "pystr \<Rightarrow> error + bytes" where
  "str_to_bytes [] = Inr []"
| "str_to_bytes (cp # s) =
     (case encode_code_point cp of Inl e \<Rightarrow> Inl e
      | Inr b \<Rightarrow> (case str_to_bytes s of Inl e \<Rightarrow> Inl e | Inr bs \<Rightarrow> Inr (b @ bs)))"

definition continuation :: "nat \<Rightarrow> bool" where
  "continuation b \<longleftrightarrow> 0x80 \<le> b \<and> b \<le> 0xBF"

fun decode_code_points :: "nat list \<Rightarrow> error + pystr" where
  "decode_code_points [] = Inr []"
| "decode_code_points (a # r) =
     (if a < 0x80 then
        (case decode_code_points r of Inl e \<Rightarrow> Inl e | Inr s \<Rightarrow> Inr (a # s))
      else if 0xC2 \<le> a \<and> a \<le> 0xDF then
        (case r of
           b # r1 \<Rightarrow>
             if continuation b then
               (case decode_code_points r1 of Inl e \<Rightarrow> Inl e
                | Inr s \<Rightarrow> Inr (((a - 0xC0) * 64 + (b - 0x80)) # s))
             else Inl UnicodeError
         | _ \<Rightarrow> Inl UnicodeError)
      else if 0xE0 \<le> a \<and> a \<le> 0xEF then
        (case r of
           b # c # r2 \<Rightarrow>
             if continuation b \<and> continuation c \<and> (a = 0xE0 \<longrightarrow> 0xA0 \<le> b)
                \<and> (a = 0xED \<longrightarrow> b \<le> 0x9F) then
               (case decode_code_points r2 of Inl e \<Rightarrow> Inl e
                | Inr s \<Rightarrow> Inr (((a - 0xE0) * 4096 + (b - 0x80) * 64 + (c - 0x80)) # s))
             else Inl UnicodeError
         | _ \<Rightarrow> Inl UnicodeError)
      else if 0xF0 \<le> a \<and> a \<le> 0xF4 then
        (case r of
           b # c # d # r3 \<Rightarrow>
             if continuation b \<and> continuation c \<and> continuation d \<and> (a = 0xF0 \<longrightarrow> 0x90 \<le> b)
                \<and> (a = 0xF4 \<longrightarrow> b \<le> 0x8F) then
               (case decode_code_points r3 of Inl e \<Rightarrow> Inl e
                | Inr s \<Rightarrow>
                    Inr (((a - 0xF0) * 262144 + (b - 0x80) * 4096 + (c - 0x80) * 64 + (d - 0x80)) # s))
             else Inl UnicodeError
         | _ \<Rightarrow> Inl UnicodeError)
      else Inl UnicodeError)"

definition decode_utf8 :: "bytes \<Rightarrow> error + pystr" where
  "decode_utf8 b = decode_code_points (map of_char b)"

section \<open>abstract\_p2p\_client.py: the state of a peer\<close>

text \<open>
  What the embedder and the run time see of a client: the upcalls made, the lines printed,
  the threads started with their targets and arguments.
\<close>

datatype upcall =
    On_reliable_message "bytes option"
  | On_unreliable_message "bytes option"
  | On_reliable_stream_message "bytes option" int
  | On_unreliable_stream_message "bytes option" int
  | On_file pystr bytes

datatype printed =
    Got_ACK_on_invalid_message_id int
  | Invalid_unicode_value_for_is_last_chunk nat
  | Bad_data bytes
  | Redundant_bytes bytes
  | Bad_packet bytes

datatype thread = Listen | Handle_file_send pystr | Handle_file_chunks int int | Thread_without_target

text \<open>
  The attributes of \<open>AbstractP2PClient\<close>, the local buffer \<open>data\<close> of \<open>_listen\<close>
  (\<open>listen_data\<close>), and the observable effects: the arguments of \<open>self._peer.send\<close> in
  order (\<open>peer_sent\<close>), the upcalls, the printed lines and the started threads.
  \<open>CHUNK_SIZE\<close> and \<open>FILE_TRANSFER_STREAMS\<close> are class attributes read through \<open>self\<close>.
\<close>

record client =
  CHUNK_SIZE :: nat
  FILE_TRANSFER_STREAMS :: "int list"
  next_message_id :: int
  message_id_to_was_acked :: "int \<rightharpoonup> bool"
  messages_ids_that_have_been_received :: "int \<rightharpoonup> bool"
  file_stream_id_to_chunks :: "int \<rightharpoonup> (int \<rightharpoonup> bytes)"
  file_stream_id_to_is_available :: "int \<rightharpoonup> bool"
  listen_data :: bytes
  peer_sent :: "bytes list"
  upcalls :: "upcall list"
  prints :: "printed list"
  threads :: "thread list"

text \<open>\<open>__init__\<close> with the class's own constants; it starts the listener thread.\<close>

definition new_client :: client where
  "new_client =
     \<lparr>CHUNK_SIZE = 1024,
      FILE_TRANSFER_STREAMS = [7771, 7772, 7773, 7774],
      next_message_id = 0,
      message_id_to_was_acked = Map.empty,
      messages_ids_that_have_been_received = Map.empty,
      file_stream_id_to_chunks = map_of (map (\<lambda>stream_id. (stream_id, Map.empty)) [7771, 7772, 7773, 7774]),
      file_stream_id_to_is_available = map_of (map (\<lambda>stream_id. (stream_id, True)) [7771, 7772, 7773, 7774]),
      listen_data = [],
      peer_sent = [],
      upcalls = [],
      prints = [],
      threads = [Listen]\<rparr>"

text \<open>
  A procedure returns the state it leaves and the exception it raised, if any; a function
  with a result returns \<open>error + result\<close> beside the state.
\<close>

type_synonym outcome = "error option \<times> client"

definition peer_send :: "client \<Rightarrow> bytes \<Rightarrow> client" where
  "peer_send c data = c\<lparr>peer_sent := peer_sent c @ [data]\<rparr>"

definition do_upcall :: "client \<Rightarrow> upcall \<Rightarrow> client" where
  "do_upcall c u = c\<lparr>upcalls := upcalls c @ [u]\<rparr>"

definition print :: "client \<Rightarrow> printed \<Rightarrow> client" where
  "print c p = c\<lparr>prints := prints c @ [p]\<rparr>"

definition start_thread :: "client \<Rightarrow> thread \<Rightarrow> client" where
  "start_thread c t = c\<lparr>threads := threads c @ [t]\<rparr>"

text \<open>\<open>d[k] = v\<close> on a dictionary: it stores, and never raises \<open>KeyError\<close>.\<close>

definition dict_setitem :: "('k \<rightharpoonup> 'v) \<Rightarrow> 'k \<Rightarrow> 'v \<Rightarrow> error + ('k \<rightharpoonup> 'v)" where
  "dict_setitem d k v = Inr (d(k \<mapsto> v))"

definition get_next_message_id :: "client \<Rightarrow> int \<times> client" where
  "get_next_message_id c = (next_message_id c + 1, c\<lparr>next_message_id := next_message_id c + 1\<rparr>)"

section \<open>Receiving: \_handle\_unwrapped\_message and \_handle\_file\_chunks\<close>

text \<open>
  The file branch of \<open>_handle_unwrapped_message\<close> (a reliable message, not seen before, on a
  file-transfer stream): chunk index, is-last flag, then either the finaliser thread or
  the chunk table.
\<close>

definition handle_file_message :: "client \<Rightarrow> bytes option \<Rightarrow> int \<Rightarrow> outcome" where
  "handle_file_message c message stream_id =
     (case message of None \<Rightarrow> (Some TypeError, c)
      | Some message \<Rightarrow>
     (case unpack_L (bslice message 0 4) of Inl e \<Rightarrow> (Some e, c)
      | Inr chunk_index \<Rightarrow>
     (if \<not> 4 < length message then (Some IndexError, c)
      else let is_last_chunk = (of_char (message ! 4) :: nat) in
        if is_last_chunk \<noteq> 48 \<and> is_last_chunk \<noteq> 49
        then (None, print c (Invalid_unicode_value_for_is_last_chunk is_last_chunk))
        else if is_last_chunk = 49
        then (None, start_thread c (Handle_file_chunks stream_id chunk_index))
        else (case file_stream_id_to_chunks c stream_id of
                None \<Rightarrow> (Some KeyError, c)
              | Some chunks \<Rightarrow>
                  (None, c\<lparr>file_stream_id_to_chunks :=
                            (file_stream_id_to_chunks c)(stream_id \<mapsto> chunks(chunk_index \<mapsto> drop 5 message))\<rparr>)))))"

text \<open>
  \<open>if acked_message_id:\<close> is false for \<open>None\<close> and for \<open>0\<close>. In the ACK branch the
  \<open>finally: return\<close> leaves the procedure whatever happened in the \<open>try\<close>.
\<close>

definition handle_unwrapped_message ::
  "client \<Rightarrow> bytes option \<Rightarrow> int option \<Rightarrow> int option \<Rightarrow> int option \<Rightarrow> outcome" where
  "handle_unwrapped_message c message message_id stream_id acked_message_id =
     (if acked_message_id \<noteq> None \<and> acked_message_id \<noteq> Some 0 then
        (case dict_setitem (message_id_to_was_acked c) (the acked_message_id) True of
           Inr d \<Rightarrow> (None, c\<lparr>message_id_to_was_acked := d\<rparr>)
         | Inl KeyError \<Rightarrow> (None, print c (Got_ACK_on_invalid_message_id (the acked_message_id)))
         | Inl _ \<Rightarrow> (None, c))
      else case message_id of
        None \<Rightarrow>
          (case stream_id of
             None \<Rightarrow> (None, do_upcall c (On_unreliable_message message))
           | Some stream_id \<Rightarrow> (None, do_upcall c (On_unreliable_stream_message message stream_id)))
      | Some message_id \<Rightarrow>
          (case wrap_ack message_id of Inl e \<Rightarrow> (Some e, c)
           | Inr ack \<Rightarrow>
          (let c = peer_send c ack in
           if messages_ids_that_have_been_received c message_id = None then
             (let c = c\<lparr>messages_ids_that_have_been_received :=
                         (messages_ids_that_have_been_received c)(message_id \<mapsto> True)\<rparr> in
              case stream_id of
                None \<Rightarrow> (None, do_upcall c (On_reliable_message message))
              | Some stream_id \<Rightarrow>
                  if stream_id \<in> set (FILE_TRANSFER_STREAMS c)
                  then handle_file_message c message stream_id
                  else (None, do_upcall c (On_reliable_stream_message message stream_id)))
           else (None, c))))"

text \<open>
  \<open>_handle_file_chunks\<close>, started as a thread. Its first loop only reads the chunk table
  and sleeps: on a table that holds \<open>number_of_chunks\<close> entries it is left at once, on any
  other table it goes on until another thread changes the table. The result is \<open>None\<close> while
  the loop is waiting. The chunks are then looked up by index; a missing one raises
  \<open>KeyError\<close>.
\<close>

fun collect_chunks :: "(int \<rightharpoonup> bytes) \<Rightarrow> int list \<Rightarrow> error + bytes" where
  "collect_chunks chunks [] = Inr []"
| "collect_chunks chunks (i # is) =
     (case chunks i of None \<Rightarrow> Inl KeyError
      | Some chunk \<Rightarrow>
          (case collect_chunks chunks is of Inl e \<Rightarrow> Inl e | Inr file_data \<Rightarrow> Inr (chunk @ file_data)))"

definition handle_file_chunks :: "client \<Rightarrow> int \<Rightarrow> int \<Rightarrow> outcome option" where
  "handle_file_chunks c stream_id number_of_chunks =
     (case file_stream_id_to_chunks c stream_id of
        None \<Rightarrow> Some (Some KeyError, c)
      | Some chunks \<Rightarrow>
          if int (card (dom chunks)) \<noteq> number_of_chunks then None
          else (case chunks 0 of None \<Rightarrow> Some (Some KeyError, c)
                | Some name \<Rightarrow>
               (case decode_utf8 name of Inl e \<Rightarrow> Some (Some e, c)
                | Inr filename \<Rightarrow>
               (case collect_chunks chunks [1 ..  number_of_chunks - 1] of
                  Inl e \<Rightarrow> Some (Some e, c)
                | Inr file_data \<Rightarrow>
                    Some (None,
                      do_upcall (c\<lparr>file_stream_id_to_chunks :=
                                    (file_stream_id_to_chunks c)(stream_id \<mapsto> Map.empty)\<rparr>)
                        (On_file filename file_data))))))"

section \<open>Sending\<close>

text \<open>
  \<open>_send_message_and_wait_for_ack\<close> sends, sleeps, and sends again for as long as the ACK
  table shows \<open>False\<close> for the message. The table is written by the listener thread, so the
  model takes a function \<open>sleep\<close>: what the other threads do to the state of this peer
  during one \<open>sleep\<close> call of this thread. \<open>fuel\<close> bounds the number of times the loop
  condition is evaluated; the result \<open>None\<close> means that the loop is still running after
  that many evaluations.
\<close>

fun wait_for_ack :: "nat \<Rightarrow> (client \<Rightarrow> client) \<Rightarrow> client \<Rightarrow> bytes \<Rightarrow> int \<Rightarrow> outcome option" where
  "wait_for_ack 0 sleep c message message_id = None"
| "wait_for_ack (Suc fuel) sleep c message message_id =
     (case message_id_to_was_acked c message_id of
        None \<Rightarrow> Some (Some KeyError, c)
      | Some True \<Rightarrow> Some (None, c)
      | Some False \<Rightarrow> wait_for_ack fuel sleep (sleep (peer_send c message)) message message_id)"

definition send_message_and_wait_for_ack ::
  "nat \<Rightarrow> (client \<Rightarrow> client) \<Rightarrow> client \<Rightarrow> bytes \<Rightarrow> int \<Rightarrow> outcome option" where
  "send_message_and_wait_for_ack fuel sleep c message message_id =
     wait_for_ack fuel sleep (sleep (peer_send c message)) message message_id"

text \<open>
  \<open>send_reliable\<close> and \<open>send_reliable_stream_message\<close>. The last statement is
  \<open>Thread(target=self._send_message_and_wait_for_ack(message, message_id)).start()\<close>: the
  argument of \<open>Thread\<close> is a call, evaluated by the caller before the thread object exists;
  its result \<open>None\<close> becomes the target, and the thread that is started has nothing to run.
\<close>

definition send_reliable :: "nat \<Rightarrow> (client \<Rightarrow> client) \<Rightarrow> client \<Rightarrow> bytes \<Rightarrow> outcome option" where
  "send_reliable fuel sleep c message =
     (case get_next_message_id c of (message_id, c) \<Rightarrow>
      (let c = c\<lparr>message_id_to_was_acked := (message_id_to_was_acked c)(message_id \<mapsto> False)\<rparr> in
       case wrap_reliable message message_id of Inl e \<Rightarrow> Some (Some e, c)
       | Inr message \<Rightarrow>
           (case send_message_and_wait_for_ack fuel sleep c message message_id of
              None \<Rightarrow> None
            | Some (Some e, c) \<Rightarrow> Some (Some e, c)
            | Some (None, c) \<Rightarrow> Some (None, start_thread c Thread_without_target))))"

definition send_reliable_stream_message ::
  "nat \<Rightarrow> (client \<Rightarrow> client) \<Rightarrow> client \<Rightarrow> bytes \<Rightarrow> int \<Rightarrow> outcome option" where
  "send_reliable_stream_message fuel sleep c message stream_id =
     (case get_next_message_id c of (message_id, c) \<Rightarrow>
      (let c = c\<lparr>message_id_to_was_acked := (message_id_to_was_acked c)(message_id \<mapsto> False)\<rparr> in
       case wrap_reliable_stream message message_id stream_id of Inl e \<Rightarrow> Some (Some e, c)
       | Inr message \<Rightarrow>
           (case send_message_and_wait_for_ack fuel sleep c message message_id of
              None \<Rightarrow> None
            | Some (Some e, c) \<Rightarrow> Some (Some e, c)
            | Some (None, c) \<Rightarrow> Some (None, start_thread c Thread_without_target))))"

text \<open>
  \<open>_lock_file_stream\<close>: the first stream of \<open>FILE_TRANSFER_STREAMS\<close> marked available is
  taken. With none available the \<open>while\<close> loop scans again and again: \<open>None\<close>. The lock
  itself is not contended in this model.
\<close>

fun first_available :: "(int \<rightharpoonup> bool) \<Rightarrow> int list \<Rightarrow> error + int option" where
  "first_available available [] = Inr None"
| "first_available available (stream_id # streams) =
     (case available stream_id of
        None \<Rightarrow> Inl KeyError
      | Some True \<Rightarrow> Inr (Some stream_id)
      | Some False \<Rightarrow> first_available available streams)"

definition lock_file_stream :: "client \<Rightarrow> ((error + int) \<times> client) option" where
  "lock_file_stream c =
     (case first_available (file_stream_id_to_is_available c) (FILE_TRANSFER_STREAMS c) of
        Inl e \<Rightarrow> Some (Inl e, c)
      | Inr None \<Rightarrow> None
      | Inr (Some stream_id) \<Rightarrow>
          Some (Inr stream_id,
            c\<lparr>file_stream_id_to_is_available := (file_stream_id_to_is_available c)(stream_id \<mapsto> False)\<rparr>))"

text \<open>
  \<open>_handle_file_send\<close>. The file system is outside the model: \<open>basename\<close> is the result of
  \<open>os.path.basename(file_path)\<close> and \<open>contents\<close> the bytes of the opened file;
  \<open>read(CHUNK_SIZE)\<close> takes the next bytes of what is left. The \<open>while chunk\<close> loop is
  \<open>file_send_loop\<close>, with the chunk just read and the rest of the file.
\<close>

function file_send_loop ::
  "nat \<Rightarrow> (client \<Rightarrow> client) \<Rightarrow> client \<Rightarrow> int \<Rightarrow> int \<Rightarrow> bytes \<Rightarrow> bytes
     \<Rightarrow> (error option \<times> client \<times> int) option" where
  "file_send_loop fuel sleep c stream_id packet_index chunk rest =
     (if chunk = [] then Some (None, c, packet_index)
      else let packet_index = packet_index + 1 in
        case pack_L packet_index of Inl e \<Rightarrow> Some (Some e, c, packet_index)
        | Inr index \<Rightarrow>
            (case send_reliable_stream_message fuel sleep c (index @ ''0'' @ chunk) stream_id of
               None \<Rightarrow> None
             | Some (Some e, c) \<Rightarrow> Some (Some e, c, packet_index)
             | Some (None, c) \<Rightarrow>
                 file_send_loop fuel sleep c stream_id packet_index
                   (take (CHUNK_SIZE c) rest) (drop (CHUNK_SIZE c) rest)))"
  by pat_completeness auto
termination
  by (relation "measure (\<lambda>(fuel, sleep, c, stream_id, packet_index, chunk, rest).
        length chunk + length rest)") (auto simp: min_def neq_Nil_conv)

definition handle_file_send ::
  "nat \<Rightarrow> (client \<Rightarrow> client) \<Rightarrow> client \<Rightarrow> pystr \<Rightarrow> bytes \<Rightarrow> outcome option" where
  "handle_file_send fuel sleep c basename contents =
     (case lock_file_stream c of
        None \<Rightarrow> None
      | Some (Inl e, c) \<Rightarrow> Some (Some e, c)
      | Some (Inr stream_id, c) \<Rightarrow>
     (case str_to_bytes basename of Inl e \<Rightarrow> Some (Some e, c)
      | Inr filename \<Rightarrow>
     (case pack_L 0 of Inl e \<Rightarrow> Some (Some e, c)
      | Inr index \<Rightarrow>
     (case send_reliable_stream_message fuel sleep c (index @ ''0'' @ filename) stream_id of
        None \<Rightarrow> None
      | Some (Some e, c) \<Rightarrow> Some (Some e, c)
      | Some (None, c) \<Rightarrow>
     (case file_send_loop fuel sleep c stream_id 0
             (take (CHUNK_SIZE c) contents) (drop (CHUNK_SIZE c) contents) of
        None \<Rightarrow> None
      | Some (Some e, c, packet_index) \<Rightarrow> Some (Some e, c)
      | Some (None, c, packet_index) \<Rightarrow>
     (case pack_L (packet_index + 1) of Inl e \<Rightarrow> Some (Some e, c)
      | Inr index \<Rightarrow>
     (case send_reliable_stream_message fuel sleep c (index @ ''1'') stream_id of
        None \<Rightarrow> None
      | Some (Some e, c) \<Rightarrow> Some (Some e, c)
      | Some (None, c) \<Rightarrow>
          (let c = sleep c in
           Some (None, c\<lparr>file_stream_id_to_is_available :=
                          (file_stream_id_to_is_available c)(stream_id \<mapsto> True)\<rparr>)))))))))"

text \<open>
  \<open>send_file\<close>: \<open>file_exists\<close> is the result of \<open>os.path.exists(file_path)\<close>.
\<close>

definition send_file :: "client \<Rightarrow> bool \<Rightarrow> pystr \<Rightarrow> outcome" where
  "send_file c file_exists file_path =
     (if \<not> file_exists then (Some ValueError, c)
      else (None, start_thread c (Handle_file_send file_path)))"

section \<open>The listener\<close>

text \<open>
  \<open>data.find(sub, start)\<close>: the lowest index from \<open>start\<close> on at which \<open>sub\<close> occurs in
  \<open>data\<close>; \<open>None\<close> stands for the result \<open>-1\<close>.
\<close>

function find_bytes :: "bytes \<Rightarrow> bytes \<Rightarrow> nat \<Rightarrow> nat option" where
  "find_bytes data sub start =
     (if length data < start + length sub then None
      else if prefix sub (drop start data) then Some start
      else find_bytes data sub (start + 1))"
  by pat_completeness auto
termination
proof (relation "measure (\<lambda>(data, sub, start). length data - start)")
  show "wf (measure (\<lambda>(data, sub, start). length data - start))"
    by simp
next
  fix data sub :: bytes and start :: nat
  assume room: "\<not> length data < start + length sub"
    and miss: "\<not> prefix sub (drop start data)"
  have "sub \<noteq> []"
    using miss by auto
  then have "start < length data"
    using room by (cases sub) auto
  then show "((data, sub, start + 1), data, sub, start)
      \<in> measure (\<lambda>(data, sub, start). length data - start)"
    by simp
qed

text \<open>
  \<open>_extract_packets\<close>: \<open>barker_indexes data last_index\<close> is what the \<open>while True\<close>
  loop appends to \<open>barker_indexes\<close> once its last element is \<open>last_index\<close>.
\<close>

function barker_indexes :: "bytes \<Rightarrow> nat \<Rightarrow> nat list" where
  "barker_indexes data last_index =
     (case find_bytes data BARKER (last_index + BARKER_LENGTH) of
        None \<Rightarrow> []
      | Some barker_index \<Rightarrow> barker_index # barker_indexes data barker_index)"
  by pat_completeness auto
termination
proof (relation "measure (\<lambda>(data, last_index). length data - last_index)")
  show "wf (measure (\<lambda>(data, last_index). length (data :: bytes) - last_index))"
    by simp
next
  fix data :: bytes and last_index barker_index :: nat
  assume found: "find_bytes data BARKER (last_index + BARKER_LENGTH) = Some barker_index"
  have bounds: "start \<le> i \<and> i + length sub \<le> length data"
    if "find_bytes data sub start = Some i" for sub start i
    using that
  proof (induction data sub start rule: find_bytes.induct)
    case (1 data sub start)
    then show ?case
      by (simp split: if_splits)
  qed
  have "0 < BARKER_LENGTH" "length BARKER = BARKER_LENGTH"
    by (simp_all add: BARKER_LENGTH_def BARKER_def)
  with bounds [OF found] show "((data, barker_index), data, last_index)
      \<in> measure (\<lambda>(data, last_index). length data - last_index)"
    by auto
qed

definition extract_packets :: "bytes \<Rightarrow> bytes list" where
  "extract_packets data =
     (let barker_indexes = 0 # barker_indexes data 0 in
      map (\<lambda>i. bslice data (barker_indexes ! i) (barker_indexes ! (i + 1)))
          [0 ..< length barker_indexes - 1]
      @ [drop (last barker_indexes) data])"

text \<open>
  The \<open>for packet in packets[:-1]\<close> loop of \<open>_listen\<close>. Only \<open>ValueError\<close> is caught;
  an exception of the handler, which runs in the \<open>else\<close> clause, leaves the loop and the
  listener.
\<close>

fun dispatch_packets :: "client \<Rightarrow> bytes list \<Rightarrow> outcome" where
  "dispatch_packets c [] = (None, c)"
| "dispatch_packets c (packet # packets) =
     (case unwrap packet of
        Inl ValueError \<Rightarrow> dispatch_packets (print c (Bad_packet packet)) packets
      | Inl e \<Rightarrow> (Some e, c)
      | Inr (message, message_id, stream_id, acked_message_id, redundant_bytes) \<Rightarrow>
          (let c = (if redundant_bytes \<noteq> [] then print c (Redundant_bytes redundant_bytes) else c)
           in case handle_unwrapped_message c message message_id stream_id acked_message_id of
                (Some e, c) \<Rightarrow> (Some e, c)
              | (None, c) \<Rightarrow> dispatch_packets c packets))"


section \<open>The frame layout as the specification words it\<close>

text \<open>
  The value of a byte string read as a little-endian number, and the specification's
  "4-byte little-endian unsigned 32-bit" field: four bytes whose value is \<open>v\<close>.
\<close>

fun le_value :: "bytes \<Rightarrow> int" where
  "le_value [] = 0"
| "le_value (b # bs) = of_char b + 256 * le_value bs"

definition u32_le :: "bytes \<Rightarrow> int \<Rightarrow> bool" where
  "u32_le b v \<longleftrightarrow> length b = 4 \<and> le_value b = v"

text \<open>
  The layout table: for each packet type, the number of bytes before the stuffed payload
  (Barker, type byte, the ids, the size field); for an ACK, the length of the whole frame.
\<close>

definition header_length :: "nat \<Rightarrow> nat" where
  "header_length t =
     (if t = 0 then 17 else if t = 1 then 13 else if t = 2 then 21 else if t = 3 then 17 else 13)"

definition packet_type_of :: "bytes \<Rightarrow> nat" where
  "packet_type_of data = of_char (data ! 8)"

definition payload_size :: "bytes \<Rightarrow> nat" where
  "payload_size data =
     (let h = header_length (packet_type_of data) in nat (le_value (bslice data (h - 4) h)))"

text \<open>
  The specification's failure condition of \<open>unwrap\<close>: no Barker at offset 0, a missing or
  unknown packet type, a truncated header, a truncated CRC field, or a CRC field that differs
  from the CRC-32 of the stuffed payload bytes.
\<close>

definition bad_packet :: "bytes \<Rightarrow> bool" where
  "bad_packet data \<longleftrightarrow>
     (let t = packet_type_of data; h = header_length t; n = payload_size data in
      \<not> prefix BARKER data
      \<or> length data < 9 \<or> 4 < t
      \<or> length data < h
      \<or> (t \<noteq> 4 \<and>
          (length data < h + n + 4
           \<or> le_value (bslice data (h + n) (h + n + 4)) \<noteq> crc32 (bslice data h (h + n)))))"

text \<open>The tuple the layout table assigns to a well-formed buffer.\<close>

definition parsed :: "bytes \<Rightarrow> unwrapped" where
  "parsed data =
     (let t = packet_type_of data; h = header_length t; n = payload_size data;
          payload = unstuff_data (bslice data h (h + n));
          tail = drop (h + n + 4) data;
          field1 = le_value (bslice data 9 13);
          field2 = le_value (bslice data 13 17)
      in if t = 0 then (Some payload, Some field1, None, None, tail)
         else if t = 1 then (Some payload, None, None, None, tail)
         else if t = 2 then (Some payload, Some field1, Some field2, None, tail)
         else if t = 3 then (Some payload, None, Some field1, None, tail)
         else (None, None, None, Some field1, drop 13 data))"

section \<open>Auxiliary notions for the proofs about the listener\<close>


text \<open>
  The packets that \<open>_extract_packets\<close> cuts from index \<open>k\<close> on, once \<open>k\<close> is the last
  Barker index found: \<open>extract_packets data\<close> is \<open>packets_from data 0\<close>.
\<close>

definition packets_from :: "bytes \<Rightarrow> nat \<Rightarrow> bytes list" where
  "packets_from data k =
     (let barker_indexes = k # barker_indexes data k in
      map (\<lambda>i. bslice data (barker_indexes ! i) (barker_indexes ! (i + 1)))
          [0 ..< length barker_indexes - 1]
      @ [drop (last barker_indexes) data])"

section \<open>Integer fields\<close>

lemma pack_L_length: "pack_L v = Inr b \<Longrightarrow> length b = 4"
  by (auto simp: pack_L_def split: if_splits)

lemma le32_recompose:
  fixes v :: int
  assumes "0 \<le> v" "v < 4294967296"
  shows "v mod 256 + 256 * (v div 256 mod 256) + 65536 * (v div 65536 mod 256)
           + 16777216 * (v div 16777216) = v"
proof -
  have a: "v div 65536 = v div 256 div 256" "v div 16777216 = v div 256 div 256 div 256"
    by (simp_all add: div_mult2_eq [symmetric])
  show ?thesis unfolding a
    using mult_div_mod_eq [of 256 v] mult_div_mod_eq [of 256 "v div 256"]
      mult_div_mod_eq [of 256 "v div 256 div 256"]
    by linarith
qed

lemma unpack_pack_L: "pack_L v = Inr b \<Longrightarrow> unpack_L b = Inr v"
  by (auto simp: pack_L_def le32_recompose split: if_splits)

lemma of_char_int_bounds: "0 \<le> (of_char c :: int) \<and> (of_char c :: int) < 256"
proof -
  have "(of_char c :: int) = of_char c mod 256" by simp
  then show ?thesis
    by (metis pos_mod_sign pos_mod_bound zero_less_numeral)
qed

lemma unpack_L_cases:
  "unpack_L b = Inr v \<Longrightarrow>
     \<exists>b0 b1 b2 b3. b = [b0, b1, b2, b3] \<and>
       v = of_char b0 + 256 * of_char b1 + 65536 * of_char b2 + 16777216 * of_char b3"
  by (cases b rule: unpack_L.cases) auto

lemma unpack_L_range: "unpack_L b = Inr v \<Longrightarrow> 0 \<le> v \<and> v < 4294967296"
proof -
  assume "unpack_L b = Inr v"
  then obtain b0 b1 b2 b3 where
    v: "v = of_char b0 + 256 * of_char b1 + 65536 * of_char b2 + 16777216 * of_char b3"
    using unpack_L_cases by blast
  show ?thesis
    using of_char_int_bounds [of b0] of_char_int_bounds [of b1]
      of_char_int_bounds [of b2] of_char_int_bounds [of b3]
    unfolding v by linarith
qed

lemma digit_step:
  fixes a q :: int
  assumes "0 \<le> a" "a < 256"
  shows "(a + 256 * q) mod 256 = a" "(a + 256 * q) div 256 = q"
  using assms by simp_all

lemma le32_digits:
  fixes a b c d :: int
  assumes "0 \<le> a" "a < 256" "0 \<le> b" "b < 256" "0 \<le> c" "c < 256" "0 \<le> d" "d < 256"
  defines "v \<equiv> a + 256 * b + 65536 * c + 16777216 * d"
  shows "v mod 256 = a" "v div 256 mod 256 = b" "v div 65536 mod 256 = c"
    "v div 16777216 mod 256 = d"
proof -
  have v: "v = a + 256 * (b + 256 * (c + 256 * d))"
    by (simp add: v_def)
  have s: "v div 65536 = v div 256 div 256" "v div 16777216 = v div 256 div 256 div 256"
    by (simp_all add: div_mult2_eq [symmetric])
  have d1: "v div 256 = b + 256 * (c + 256 * d)"
    unfolding v using assms(1,2) by (rule digit_step)
  have d2: "v div 256 div 256 = c + 256 * d"
    unfolding d1 using assms(3,4) by (rule digit_step)
  have d3: "v div 256 div 256 div 256 = d"
    unfolding d2 using digit_step(2) [OF assms(5,6), of d] by simp
  show "v mod 256 = a" unfolding v using assms(1,2) by (rule digit_step)
  show "v div 256 mod 256 = b" unfolding d1 using assms(3,4) by (rule digit_step)
  show "v div 65536 mod 256 = c" unfolding s d2 using assms(5,6) by (rule digit_step)
  show "v div 16777216 mod 256 = d" unfolding s d3 using assms(7,8) by simp
qed

lemma pack_unpack_L: "unpack_L b = Inr v \<Longrightarrow> pack_L v = Inr b"
proof -
  assume u: "unpack_L b = Inr v"
  then obtain b0 b1 b2 b3 where b: "b = [b0, b1, b2, b3]" and
    v: "v = of_char b0 + 256 * of_char b1 + 65536 * of_char b2 + 16777216 * of_char b3"
    using unpack_L_cases by blast
  have bnd: "0 \<le> (of_char x :: int)" "(of_char x :: int) < 256" for x
    using of_char_int_bounds by auto
  note d = le32_digits [of "of_char b0" "of_char b1" "of_char b2" "of_char b3", folded v,
      OF bnd bnd bnd bnd]
  have "char_of v = b0" "char_of (v div 256) = b1" "char_of (v div 65536) = b2"
    "char_of (v div 16777216) = b3"
    using d by (simp_all add: char_of_eq_iff take_bit_eq_mod)
  with unpack_L_range [OF u] show ?thesis
    by (simp add: pack_L_def b)
qed

section \<open>Byte stuffing\<close>

lemma replace_scan_head:
  assumes "CHR ''B'' \<notin> set w" "prefix w (replace_scan ''BADFDAD'' ''BADFDADZ'' xs)"
  shows "prefix w xs"
  using assms
proof (induction w arbitrary: xs)
  case Nil
  then show ?case by simp
next
  case (Cons c w)
  show ?case
  proof (cases xs)
    case Nil
    with Cons.prems show ?thesis by simp
  next
    case (Cons y ys)
    show ?thesis
    proof (cases "prefix ''BADFDAD'' xs")
      case True
      with Cons.prems \<open>xs = y # ys\<close> show ?thesis by auto
    next
      case False
      with Cons.prems \<open>xs = y # ys\<close> have "c = y" "prefix w (replace_scan ''BADFDAD'' ''BADFDADZ'' ys)"
        by auto
      with Cons.IH [of ys] Cons.prems(1) \<open>xs = y # ys\<close> show ?thesis by simp
    qed
  qed
qed

lemma unstuff_scan_stuff_scan:
  "replace_scan ''BADFDADZ'' ''BADFDAD'' (replace_scan ''BADFDAD'' ''BADFDADZ'' xs) = xs"
proof (induction xs rule: length_induct)
  case (1 xs)
  show ?case
  proof (cases xs)
    case Nil
    then show ?thesis by simp
  next
    case (Cons y ys)
    show ?thesis
    proof (cases "prefix ''BADFDAD'' xs")
      case True
      then obtain r where r: "xs = ''BADFDAD'' @ r"
        by (auto simp: prefix_def)
      then have "length r < length xs" by simp
      with 1 have "replace_scan ''BADFDADZ'' ''BADFDAD'' (replace_scan ''BADFDAD'' ''BADFDADZ'' r) = r"
        by blast
      then show ?thesis unfolding r by simp
    next
      case False
      have ih: "replace_scan ''BADFDADZ'' ''BADFDAD'' (replace_scan ''BADFDAD'' ''BADFDADZ'' ys) = ys"
        using 1 Cons by simp
      have np: "\<not> prefix ''BADFDADZ'' (y # replace_scan ''BADFDAD'' ''BADFDADZ'' ys)"
      proof
        assume p: "prefix ''BADFDADZ'' (y # replace_scan ''BADFDAD'' ''BADFDADZ'' ys)"
        then have "y = CHR ''B''" and "prefix ''ADFDADZ'' (replace_scan ''BADFDAD'' ''BADFDADZ'' ys)"
          by auto
        then have "prefix ''ADFDAD'' (replace_scan ''BADFDAD'' ''BADFDADZ'' ys)"
          by (auto simp: prefix_def)
        then have "prefix ''ADFDAD'' ys"
          by (rule replace_scan_head [rotated]) simp
        with \<open>y = CHR ''B''\<close> Cons False show False by simp
      qed
      from False Cons have "replace_scan ''BADFDAD'' ''BADFDADZ'' xs = y # replace_scan ''BADFDAD'' ''BADFDADZ'' ys"
        by (simp del: Cons_prefix_Cons)
      with np ih show ?thesis using Cons
        by (simp del: Cons_prefix_Cons)
    qed
  qed
qed

lemma unstuff_stuff: "unstuff_data (stuff_data data) = data"
  by (simp add: unstuff_data_def stuff_data_def replace_def AFTER_STUFF_def BEFORE_STUFF_def
      unstuff_scan_stuff_scan)

section \<open>Parsing a frame\<close>

lemma length_BARKER: "length BARKER = 8"
  by (simp add: BARKER_def)

lemma BARKER_LENGTH_eq: "BARKER_LENGTH = 8"
  by (simp add: BARKER_LENGTH_def BARKER_def)

lemma slice_field:
  "length hdr = i \<Longrightarrow> j = i + length f \<Longrightarrow> bslice (hdr @ f @ rest) i j = f"
  by (simp add: bslice_def)

lemma drop_field:
  "length hdr = i \<Longrightarrow> j = i + length f \<Longrightarrow> drop j (hdr @ f @ rest) = rest"
  by simp

lemma extract_message_frame:
  assumes sz: "pack_L (int (length s)) = Inr sz" and cb: "pack_L c = Inr cb"
    and n: "length hdr = n"
  shows "extract_message (hdr @ sz @ s @ cb @ tail) n =
           (if c \<noteq> crc32 s then Inl ValueError else Inr (unstuff_data s, tail))"
proof -
  define d where "d = hdr @ sz @ s @ cb @ tail"
  have l: "length sz = 4" "length cb = 4"
    using sz cb by (auto dest: pack_L_length)
  have 1: "bslice d n (n + 4) = sz"
    unfolding d_def using n l by (auto intro: slice_field)
  have 2: "bslice d (n + 4) (n + 4 + length s) = s"
    unfolding d_def using slice_field [of "hdr @ sz" "n + 4" _ s "cb @ tail"] n l by simp
  have 3: "bslice d (n + 4 + length s) (n + 4 + length s + 4) = cb"
    unfolding d_def using slice_field [of "hdr @ sz @ s" "n + 4 + length s" _ cb tail] n l by simp
  have 4: "drop (n + 4 + length s + 4) d = tail"
    unfolding d_def using drop_field [of "hdr @ sz @ s" "n + 4 + length s" _ cb tail] n l by simp
  have "extract_message d n =
      (if c \<noteq> crc32 s then Inl ValueError else Inr (unstuff_data s, tail))"
    by (simp only: extract_message_def Let_def 1 2 3 4 unpack_pack_L [OF sz]
        unpack_pack_L [OF cb] sum.case nat_int)
  then show ?thesis by (simp only: d_def)
qed

lemma unwrap_type_dispatch:
  assumes "t \<le> 4"
  shows "unwrap_body (BARKER @ char_of t # rest) =
           (case PACKET_TYPE_TO_UNWRAPPER t of Inl e \<Rightarrow> Inl e
            | Inr u \<Rightarrow> u (BARKER @ char_of t # rest))"
proof -
  have "(of_char (char_of t) :: nat) = t"
    using assms by simp
  then show ?thesis
    by (simp add: unwrap_body_def BARKER_LENGTH_eq nth_append length_BARKER)
qed

lemma unwrap_reliable_frame:
  assumes "pack_L m = Inr mb"
    "pack_L (int (length s)) = Inr sz" "pack_L c = Inr cb"
  shows "unwrap (BARKER @ [char_of (0::nat)] @ mb @ sz @ s @ cb @ tail) =
           (if c \<noteq> crc32 s then Inl ValueError
            else Inr (Some (unstuff_data s), Some m, None, None, tail))"
proof -
  define d where "d = BARKER @ [char_of (0::nat)] @ mb @ sz @ s @ cb @ tail"
  note p = assms
  have l: "\<And>v b. pack_L v = Inr b \<Longrightarrow> length b = 4" by (rule pack_L_length)
  have f0: "bslice d 9 13 = mb"
    unfolding d_def using slice_field [of "BARKER @ [char_of (0::nat)]" 9 13 mb] p [THEN l]
    by (simp add: length_BARKER)
  have e: "extract_message d 13 =
      (if c \<noteq> crc32 s then Inl ValueError else Inr (unstuff_data s, tail))"
    unfolding d_def
    using extract_message_frame [OF p(2) p(3), of "BARKER @ [char_of (0::nat)] @ mb" 13 tail] p [THEN l]
    by (simp add: length_BARKER)
  have "unwrap_body d = unwrap_reliable d"
    unfolding d_def using unwrap_type_dispatch [of 0] by (simp add: PACKET_TYPE_TO_UNWRAPPER_def)
  moreover have "unwrap_reliable d =
      (if c \<noteq> crc32 s then Inl ValueError
       else Inr (Some (unstuff_data s), Some m, None, None, tail))"
    unfolding unwrap_reliable_def
    by (simp add: BARKER_LENGTH_eq e f0 unpack_pack_L [OF p(1)])
  ultimately show ?thesis by (simp add: unwrap_def d_def)
qed

lemma unwrap_unreliable_frame:
  assumes 
    "pack_L (int (length s)) = Inr sz" "pack_L c = Inr cb"
  shows "unwrap (BARKER @ [char_of (1::nat)] @ sz @ s @ cb @ tail) =
           (if c \<noteq> crc32 s then Inl ValueError
            else Inr (Some (unstuff_data s), None, None, None, tail))"
proof -
  define d where "d = BARKER @ [char_of (1::nat)] @ sz @ s @ cb @ tail"
  note p = assms
  have l: "\<And>v b. pack_L v = Inr b \<Longrightarrow> length b = 4" by (rule pack_L_length)
  have e: "extract_message d 9 =
      (if c \<noteq> crc32 s then Inl ValueError else Inr (unstuff_data s, tail))"
    unfolding d_def
    using extract_message_frame [OF p(1) p(2), of "BARKER @ [char_of (1::nat)]" 9 tail] p [THEN l]
    by (simp add: length_BARKER)
  have "unwrap_body d = unwrap_unreliable d"
    unfolding d_def using unwrap_type_dispatch [of 1] by (simp add: PACKET_TYPE_TO_UNWRAPPER_def)
  moreover have "unwrap_unreliable d =
      (if c \<noteq> crc32 s then Inl ValueError
       else Inr (Some (unstuff_data s), None, None, None, tail))"
    unfolding unwrap_unreliable_def
    by (simp add: BARKER_LENGTH_eq e )
  ultimately show ?thesis by (simp add: unwrap_def d_def)
qed

lemma unwrap_reliable_stream_frame:
  assumes "pack_L m = Inr mb" "pack_L sid = Inr sb"
    "pack_L (int (length s)) = Inr sz" "pack_L c = Inr cb"
  shows "unwrap (BARKER @ [char_of (2::nat)] @ mb @ sb @ sz @ s @ cb @ tail) =
           (if c \<noteq> crc32 s then Inl ValueError
            else Inr (Some (unstuff_data s), Some m, Some sid, None, tail))"
proof -
  define d where "d = BARKER @ [char_of (2::nat)] @ mb @ sb @ sz @ s @ cb @ tail"
  note p = assms
  have l: "\<And>v b. pack_L v = Inr b \<Longrightarrow> length b = 4" by (rule pack_L_length)
  have f0: "bslice d 9 13 = mb"
    unfolding d_def using slice_field [of "BARKER @ [char_of (2::nat)]" 9 13 mb] p [THEN l]
    by (simp add: length_BARKER)
  have f1: "bslice d 13 17 = sb"
    unfolding d_def using slice_field [of "BARKER @ [char_of (2::nat)] @ mb" 13 17 sb] p [THEN l]
    by (simp add: length_BARKER)
  have e: "extract_message d 17 =
      (if c \<noteq> crc32 s then Inl ValueError else Inr (unstuff_data s, tail))"
    unfolding d_def
    using extract_message_frame [OF p(3) p(4), of "BARKER @ [char_of (2::nat)] @ mb @ sb" 17 tail] p [THEN l]
    by (simp add: length_BARKER)
  have "unwrap_body d = unwrap_reliable_stream d"
    unfolding d_def using unwrap_type_dispatch [of 2] by (simp add: PACKET_TYPE_TO_UNWRAPPER_def)
  moreover have "unwrap_reliable_stream d =
      (if c \<noteq> crc32 s then Inl ValueError
       else Inr (Some (unstuff_data s), Some m, Some sid, None, tail))"
    unfolding unwrap_reliable_stream_def
    by (simp add: BARKER_LENGTH_eq e f0 unpack_pack_L [OF p(1)] f1 unpack_pack_L [OF p(2)])
  ultimately show ?thesis by (simp add: unwrap_def d_def)
qed

lemma unwrap_unreliable_stream_frame:
  assumes "pack_L sid = Inr sb"
    "pack_L (int (length s)) = Inr sz" "pack_L c = Inr cb"
  shows "unwrap (BARKER @ [char_of (3::nat)] @ sb @ sz @ s @ cb @ tail) =
           (if c \<noteq> crc32 s then Inl ValueError
            else Inr (Some (unstuff_data s), None, Some sid, None, tail))"
proof -
  define d where "d = BARKER @ [char_of (3::nat)] @ sb @ sz @ s @ cb @ tail"
  note p = assms
  have l: "\<And>v b. pack_L v = Inr b \<Longrightarrow> length b = 4" by (rule pack_L_length)
  have f0: "bslice d 9 13 = sb"
    unfolding d_def using slice_field [of "BARKER @ [char_of (3::nat)]" 9 13 sb] p [THEN l]
    by (simp add: length_BARKER)
  have e: "extract_message d 13 =
      (if c \<noteq> crc32 s then Inl ValueError else Inr (unstuff_data s, tail))"
    unfolding d_def
    using extract_message_frame [OF p(2) p(3), of "BARKER @ [char_of (3::nat)] @ sb" 13 tail] p [THEN l]
    by (simp add: length_BARKER)
  have "unwrap_body d = unwrap_unreliable_stream d"
    unfolding d_def using unwrap_type_dispatch [of 3] by (simp add: PACKET_TYPE_TO_UNWRAPPER_def)
  moreover have "unwrap_unreliable_stream d =
      (if c \<noteq> crc32 s then Inl ValueError
       else Inr (Some (unstuff_data s), None, Some sid, None, tail))"
    unfolding unwrap_unreliable_stream_def
    by (simp add: BARKER_LENGTH_eq e f0 unpack_pack_L [OF p(1)])
  ultimately show ?thesis by (simp add: unwrap_def d_def)
qed

lemma unwrap_ack_frame:
  assumes "pack_L a = Inr ab"
  shows "unwrap (BARKER @ [char_of (4::nat)] @ ab @ tail) = Inr (None, None, None, Some a, tail)"
proof -
  define d where "d = BARKER @ [char_of (4::nat)] @ ab @ tail"
  have l: "length ab = 4" using assms(1) by (rule pack_L_length)
  have 1: "bslice d 9 13 = ab"
    unfolding d_def using slice_field [of "BARKER @ [char_of (4::nat)]" 9 13 ab] l
    by (simp add: length_BARKER)
  have 2: "drop 13 d = tail"
    unfolding d_def using l by (simp add: length_BARKER)
  have "unwrap_body d = unwrap_ack d"
    unfolding d_def using unwrap_type_dispatch [of 4] by (simp add: PACKET_TYPE_TO_UNWRAPPER_def)
  moreover have "unwrap_ack d = Inr (None, None, None, Some a, tail)"
    unfolding unwrap_ack_def
    by (simp add: BARKER_LENGTH_eq 1 2 unpack_pack_L [OF assms(1)])
  ultimately show ?thesis by (simp add: unwrap_def d_def)
qed

section \<open>CRC-32\<close>

lemma xor_right_cancel:
  fixes a b k :: "32 word"
  assumes "a XOR k = b XOR k"
  shows "a = b"
proof -
  have "(a XOR k) XOR k = (b XOR k) XOR k" using assms by simp
  then show ?thesis by (simp add: xor.assoc)
qed

lemma crc_shift_top: "bit (crc_shift c) 31 = bit c 0"
  by (auto simp: crc_shift_def bit_simps dest: bit_imp_le_length)

lemma crc_shift_inj: "crc_shift c = crc_shift d \<Longrightarrow> c = d"
proof -
  assume e: "crc_shift c = crc_shift d"
  then have b0: "bit c 0 = bit d 0"
    using crc_shift_top [of c] crc_shift_top [of d] by simp
  with e have dr: "drop_bit 1 c = drop_bit 1 d"
    by (auto simp: crc_shift_def split: if_splits dest: xor_right_cancel)
  show "c = d"
  proof (rule bit_eqI)
    fix n
    show "bit c n = bit d n"
    proof (cases n)
      case 0
      with b0 show ?thesis by simp
    next
      case (Suc k)
      have "bit (drop_bit 1 c) k = bit (drop_bit 1 d) k" using dr by simp
      then show ?thesis unfolding Suc by (simp add: bit_drop_bit_eq)
    qed
  qed
qed

lemma crc_shift_pow_inj: "(crc_shift ^^ k) c = (crc_shift ^^ k) d \<Longrightarrow> c = d"
  by (induction k) (auto dest: crc_shift_inj)

lemma of_char_word_inj: "(of_char a :: 32 word) = of_char b \<Longrightarrow> a = b"
proof -
  assume "(of_char a :: 32 word) = of_char b"
  then have "unat (of_nat (of_char a) :: 32 word) = unat (of_nat (of_char b) :: 32 word)"
    by (simp only: of_nat_of_char)
  moreover have "(of_char x :: nat) mod 4294967296 = of_char x" for x
    using nat_of_char_less_256 [of x] by (intro mod_less) linarith
  ultimately have "(of_char a :: nat) = of_char b"
    by (simp add: unat_of_nat)
  then show "a = b" by simp
qed

lemma crc_update_inj: "crc_update c a = crc_update d b \<Longrightarrow> c XOR of_char a = d XOR of_char b"
  unfolding crc_update_def by (rule crc_shift_pow_inj)

lemma crc_fold_inj: "foldl crc_update c xs = foldl crc_update d xs \<Longrightarrow> c = d"
proof (induction xs arbitrary: c d)
  case Nil
  then show ?case by simp
next
  case (Cons x xs)
  then have "crc_update c x = crc_update d x" by simp
  then have "c XOR of_char x = d XOR of_char x" by (rule crc_update_inj)
  then show ?case by (rule xor_right_cancel)
qed

lemma crc32_single_byte:
  assumes "i < length xs" "b \<noteq> xs ! i"
  shows "crc32 (xs[i := b]) \<noteq> crc32 xs"
proof
  assume e: "crc32 (xs[i := b]) = crc32 xs"
  let ?s = "foldl crc_update 0xFFFFFFFF (take i xs)"
  have u: "xs[i := b] = take i xs @ b # drop (Suc i) xs"
    using assms(1) by (rule upd_conv_take_nth_drop)
  have x: "xs = take i xs @ xs ! i # drop (Suc i) xs"
    using assms(1) by (simp add: id_take_nth_drop [symmetric])
  from e have "crc32_word (xs[i := b]) = crc32_word xs"
    by (simp add: crc32_def word_uint_eq_iff)
  then have "foldl crc_update 0xFFFFFFFF (xs[i := b]) = foldl crc_update 0xFFFFFFFF xs"
    unfolding crc32_word_def by (rule xor_right_cancel)
  then have "foldl crc_update (crc_update ?s b) (drop (Suc i) xs)
      = foldl crc_update (crc_update ?s (xs ! i)) (drop (Suc i) xs)"
    by (subst (asm) u, subst (asm) (3) x) simp
  then have "crc_update ?s b = crc_update ?s (xs ! i)" by (rule crc_fold_inj)
  then have "?s XOR of_char b = ?s XOR of_char (xs ! i)" by (rule crc_update_inj)
  then have "(of_char b :: 32 word) = of_char (xs ! i)"
    by (metis xor.commute xor_right_cancel)
  then have "b = xs ! i" by (rule of_char_word_inj)
  with assms(2) show False by simp
qed

lemma crc32_range: "0 \<le> crc32 s \<and> crc32 s < 4294967296"
  using uint_lt2p [of "crc32_word s"] by (simp add: crc32_def)

section \<open>Building a frame\<close>

lemma pack_L_ok: "0 \<le> v \<Longrightarrow> v < 4294967296 \<Longrightarrow> \<exists>b. pack_L v = Inr b"
  by (simp add: pack_L_def)

lemma pack_L_crc32: "\<exists>b. pack_L (crc32 s) = Inr b"
  using crc32_range [of s] by (simp add: pack_L_def)

lemma wrap_reliable_frame:
  assumes "pack_L m = Inr mb" "pack_L (int (length (stuff_data P))) = Inr sz"
    "pack_L (crc32 (stuff_data P)) = Inr cb"
  shows "wrap_reliable P m = Inr (BARKER @ [char_of (0::nat)] @ mb @ sz @ stuff_data P @ cb)"
  using assms by (simp add: wrap_reliable_def)

lemma wrap_unreliable_frame:
  assumes "pack_L (int (length (stuff_data P))) = Inr sz"
    "pack_L (crc32 (stuff_data P)) = Inr cb"
  shows "wrap_unreliable P = Inr (BARKER @ [char_of (1::nat)] @ sz @ stuff_data P @ cb)"
  using assms by (simp add: wrap_unreliable_def)

lemma wrap_reliable_stream_frame:
  assumes "pack_L m = Inr mb" "pack_L sid = Inr sb"
    "pack_L (int (length (stuff_data P))) = Inr sz"
    "pack_L (crc32 (stuff_data P)) = Inr cb"
  shows "wrap_reliable_stream P m sid =
           Inr (BARKER @ [char_of (2::nat)] @ mb @ sb @ sz @ stuff_data P @ cb)"
  using assms by (simp add: wrap_reliable_stream_def)

lemma wrap_unreliable_stream_frame:
  assumes "pack_L sid = Inr sb" "pack_L (int (length (stuff_data P))) = Inr sz"
    "pack_L (crc32 (stuff_data P)) = Inr cb"
  shows "wrap_unreliable_stream P sid =
           Inr (BARKER @ [char_of (3::nat)] @ sb @ sz @ stuff_data P @ cb)"
  using assms by (simp add: wrap_unreliable_stream_def)

lemma wrap_ack_frame:
  assumes "pack_L a = Inr ab"
  shows "wrap_ack a = Inr (BARKER @ [char_of (4::nat)] @ ab)"
  using assms by (simp add: wrap_ack_def)

section \<open>The unwrappers against the layout table\<close>

lemma unpack_L_alt: "unpack_L b = (if length b = 4 then Inr (le_value b) else Inl StructError)"
  by (cases b rule: unpack_L.cases) auto

lemma length_bslice: "length (bslice data i j) = min (j - i) (length data - i)"
  by (simp add: bslice_def)

lemma extract_message_alt:
  "extract_message data h =
     (let n = nat (le_value (bslice data h (h + 4))) in
      if length data < h + 4 \<or> length data < h + 4 + n + 4 then Inl StructError
      else if le_value (bslice data (h + 4 + n) (h + 4 + n + 4)) \<noteq> crc32 (bslice data (h + 4) (h + 4 + n))
      then Inl ValueError
      else Inr (unstuff_data (bslice data (h + 4) (h + 4 + n)), drop (h + 4 + n + 4) data))"
  by (auto simp: extract_message_def unpack_L_alt length_bslice Let_def)

lemma type_byte:
  "PACKET_TYPE_TO_UNWRAPPER t =
     (if 4 < t then Inl KeyError
      else Inr (if t = 0 then unwrap_reliable else if t = 1 then unwrap_unreliable
                else if t = 2 then unwrap_reliable_stream
                else if t = 3 then unwrap_unreliable_stream else unwrap_ack))"
  by (auto simp: PACKET_TYPE_TO_UNWRAPPER_def)

lemma unwrap_reliable_alt:
  assumes "packet_type_of data = 0"
  shows "(case unwrap_reliable data of Inl e \<Rightarrow> Inl ValueError | Inr r \<Rightarrow> Inr r) =
     (if length data < header_length 0 \<or> length data < header_length 0 + payload_size data + 4
         \<or> le_value (bslice data (header_length 0 + payload_size data)
               (header_length 0 + payload_size data + 4))
             \<noteq> crc32 (bslice data (header_length 0) (header_length 0 + payload_size data))
      then Inl ValueError else Inr (parsed data))"
  using assms
  by (auto simp: unwrap_reliable_def extract_message_alt unpack_L_alt length_bslice Let_def
      header_length_def payload_size_def parsed_def BARKER_LENGTH_eq)

lemma unwrap_unreliable_alt:
  assumes "packet_type_of data = 1"
  shows "(case unwrap_unreliable data of Inl e \<Rightarrow> Inl ValueError | Inr r \<Rightarrow> Inr r) =
     (if length data < header_length 1 \<or> length data < header_length 1 + payload_size data + 4
         \<or> le_value (bslice data (header_length 1 + payload_size data)
               (header_length 1 + payload_size data + 4))
             \<noteq> crc32 (bslice data (header_length 1) (header_length 1 + payload_size data))
      then Inl ValueError else Inr (parsed data))"
  using assms
  by (auto simp: unwrap_unreliable_def extract_message_alt unpack_L_alt length_bslice Let_def
      header_length_def payload_size_def parsed_def BARKER_LENGTH_eq)

lemma unwrap_reliable_stream_alt:
  assumes "packet_type_of data = 2"
  shows "(case unwrap_reliable_stream data of Inl e \<Rightarrow> Inl ValueError | Inr r \<Rightarrow> Inr r) =
     (if length data < header_length 2 \<or> length data < header_length 2 + payload_size data + 4
         \<or> le_value (bslice data (header_length 2 + payload_size data)
               (header_length 2 + payload_size data + 4))
             \<noteq> crc32 (bslice data (header_length 2) (header_length 2 + payload_size data))
      then Inl ValueError else Inr (parsed data))"
  using assms
  by (auto simp: unwrap_reliable_stream_def extract_message_alt unpack_L_alt length_bslice Let_def
      header_length_def payload_size_def parsed_def BARKER_LENGTH_eq)

lemma unwrap_unreliable_stream_alt:
  assumes "packet_type_of data = 3"
  shows "(case unwrap_unreliable_stream data of Inl e \<Rightarrow> Inl ValueError | Inr r \<Rightarrow> Inr r) =
     (if length data < header_length 3 \<or> length data < header_length 3 + payload_size data + 4
         \<or> le_value (bslice data (header_length 3 + payload_size data)
               (header_length 3 + payload_size data + 4))
             \<noteq> crc32 (bslice data (header_length 3) (header_length 3 + payload_size data))
      then Inl ValueError else Inr (parsed data))"
  using assms
  by (auto simp: unwrap_unreliable_stream_def extract_message_alt unpack_L_alt length_bslice Let_def
      header_length_def payload_size_def parsed_def BARKER_LENGTH_eq)

lemma unwrap_ack_alt:
  assumes "packet_type_of data = 4"
  shows "(case unwrap_ack data of Inl e \<Rightarrow> Inl ValueError | Inr r \<Rightarrow> Inr r) =
     (if length data < header_length 4 then Inl ValueError else Inr (parsed data))"
  using assms
  by (auto simp: unwrap_ack_def unpack_L_alt length_bslice Let_def
      header_length_def parsed_def BARKER_LENGTH_eq)

lemma pack_L_u32_le: "pack_L v = Inr b \<Longrightarrow> u32_le b v"
  using unpack_pack_L [of v b] pack_L_length [of v b]
  by (simp add: u32_le_def unpack_L_alt)

lemma type_bytes:
  "char_of (0::nat) = CHR 0x00" "char_of (1::nat) = CHR 0x01" "char_of (2::nat) = CHR 0x02"
  "char_of (3::nat) = CHR 0x03" "char_of (4::nat) = CHR 0x04"
  by (simp_all add: char_of_eq_iff)

lemma frame_update:
  assumes "length hdr = h" "i < length s"
  shows "(hdr @ s @ cb)[h + i := b] = hdr @ s[i := b] @ cb"
  using assms by (simp add: list_update_append)

section \<open>The handler\<close>

lemma wrap_ack_ok: "0 \<le> m \<Longrightarrow> m < 4294967296 \<Longrightarrow> \<exists>ack. wrap_ack m = Inr ack"
  using pack_L_ok [of m] by (auto simp: wrap_ack_def)

lemma handle_file_message_keeps:
  "peer_sent (snd (handle_file_message c message s)) = peer_sent c"
  "messages_ids_that_have_been_received (snd (handle_file_message c message s))
     = messages_ids_that_have_been_received c"
  "upcalls (snd (handle_file_message c message s)) = upcalls c"
  by (auto simp: handle_file_message_def print_def start_thread_def Let_def
      split: option.splits sum.splits)

lemma handle_duplicate:
  assumes "wrap_ack m = Inr ack" "messages_ids_that_have_been_received c m \<noteq> None"
  shows "handle_unwrapped_message c message (Some m) sid None = (None, peer_send c ack)"
  using assms by (auto simp: handle_unwrapped_message_def peer_send_def)

lemma handle_first:
  fixes message sid
  assumes "wrap_ack m = Inr ack" "messages_ids_that_have_been_received c m = None"
  defines "c0 \<equiv> (peer_send c ack)\<lparr>messages_ids_that_have_been_received :=
                    (messages_ids_that_have_been_received c)(m \<mapsto> True)\<rparr>"
  shows "handle_unwrapped_message c message (Some m) sid None =
           (case sid of
              None \<Rightarrow> (None, do_upcall c0 (On_reliable_message message))
            | Some s \<Rightarrow>
                if s \<in> set (FILE_TRANSFER_STREAMS c) then handle_file_message c0 message s
                else (None, do_upcall c0 (On_reliable_stream_message message s)))"
  using assms(1,2) unfolding c0_def
  by (auto simp: handle_unwrapped_message_def peer_send_def Let_def split: option.splits)

lemma handle_first_effects:
  fixes message sid
  assumes "wrap_ack m = Inr ack" "messages_ids_that_have_been_received c m = None"
  defines "c1 \<equiv> snd (handle_unwrapped_message c message (Some m) sid None)"
  shows "peer_sent c1 = peer_sent c @ [ack]"
    and "messages_ids_that_have_been_received c1 m = Some True"
  unfolding c1_def handle_first [OF assms(1,2)]
  by (auto simp: handle_file_message_keeps do_upcall_def peer_send_def split: option.splits)

lemma handle_again:
  assumes "wrap_ack m = Inr ack" "messages_ids_that_have_been_received c m \<noteq> None"
  shows "((\<lambda>c. snd (handle_unwrapped_message c message (Some m) sid None)) ^^ n) c
           = c\<lparr>peer_sent := peer_sent c @ replicate n ack\<rparr>"
  using assms(2)
proof (induction n arbitrary: c)
  case 0
  then show ?case by simp
next
  case (Suc n)
  have "messages_ids_that_have_been_received (peer_send c ack) m \<noteq> None"
    using Suc.prems by (simp add: peer_send_def)
  from Suc.IH [OF this]
  have "((\<lambda>c. snd (handle_unwrapped_message c message (Some m) sid None)) ^^ n) (peer_send c ack)
      = c\<lparr>peer_sent := peer_sent c @ replicate (Suc n) ack\<rparr>"
    by (simp add: peer_send_def)
  then show ?case
    by (simp only: funpow_Suc_right o_apply handle_duplicate [OF assms(1) Suc.prems] snd_conv)
qed

section \<open>The retransmission loop\<close>

lemma wait_for_ack_never:
  assumes "message_id_to_was_acked c message_id = Some False"
  shows "wait_for_ack fuel (\<lambda>c. c) c message message_id = None"
  using assms
proof (induction fuel arbitrary: c)
  case 0
  then show ?case by simp
next
  case (Suc fuel)
  have "message_id_to_was_acked (peer_send c message) message_id = Some False"
    using Suc.prems by (simp add: peer_send_def)
  from Suc.IH [OF this] Suc.prems show ?case by simp
qed

lemma wait_for_ack_returns:
  "wait_for_ack fuel sleep c message message_id = Some (None, c')
     \<Longrightarrow> message_id_to_was_acked c' message_id = Some True"
proof (induction fuel arbitrary: c)
  case 0
  then show ?case by simp
next
  case (Suc fuel)
  then show ?case
    by (auto split: option.splits bool.splits)
qed

lemma wrap_reliable_ok:
  assumes "0 \<le> m" "m < 4294967296" "int (length (stuff_data P)) < 4294967296"
  shows "\<exists>f. wrap_reliable P m = Inr f"
proof -
  obtain mb where mb: "pack_L m = Inr mb" using pack_L_ok [OF assms(1,2)] by blast
  obtain sz where sz: "pack_L (int (length (stuff_data P))) = Inr sz"
    using pack_L_ok [OF _ assms(3)] by auto
  obtain cb where cb: "pack_L (crc32 (stuff_data P)) = Inr cb" using pack_L_crc32 by blast
  show ?thesis using wrap_reliable_frame [OF mb sz cb] by blast
qed

lemma wrap_reliable_x: "\<exists>f. wrap_reliable ''x'' 1 = Inr f"
  by (rule wrap_reliable_ok)
    (simp_all add: stuff_data_def replace_def BEFORE_STUFF_def AFTER_STUFF_def)

section \<open>Sending and receiving a file\<close>

lemma wrap_reliable_stream_ok:
  assumes "0 \<le> m" "m < 4294967296" "0 \<le> sid" "sid < 4294967296"
    "int (length (stuff_data P)) < 4294967296"
  shows "\<exists>f. wrap_reliable_stream P m sid = Inr f \<and>
           unwrap f = Inr (Some P, Some m, Some sid, None, [])"
proof -
  obtain mb where mb: "pack_L m = Inr mb" using pack_L_ok [OF assms(1,2)] by blast
  obtain sb where sb: "pack_L sid = Inr sb" using pack_L_ok [OF assms(3,4)] by blast
  obtain sz where sz: "pack_L (int (length (stuff_data P))) = Inr sz"
    using pack_L_ok [OF _ assms(5)] by auto
  obtain cb where cb: "pack_L (crc32 (stuff_data P)) = Inr cb" using pack_L_crc32 by blast
  have "unwrap (BARKER @ [char_of (2::nat)] @ mb @ sb @ sz @ stuff_data P @ cb @ [])
      = Inr (Some P, Some m, Some sid, None, [])"
    by (simp only: unwrap_reliable_stream_frame [OF mb sb sz cb] unstuff_stuff) simp
  then show ?thesis
    by (simp add: wrap_reliable_stream_frame [OF mb sb sz cb])
qed

lemma stuff_plain:
  "stuff_data ([CHR 0x00, CHR 0x00, CHR 0x00, CHR 0x00] @ ''0hello.txt'')
     = [CHR 0x00, CHR 0x00, CHR 0x00, CHR 0x00] @ ''0hello.txt''"
  "stuff_data ([CHR 0x01, CHR 0x00, CHR 0x00, CHR 0x00] @ ''0AB'')
     = [CHR 0x01, CHR 0x00, CHR 0x00, CHR 0x00] @ ''0AB''"
  "stuff_data ([CHR 0x02, CHR 0x00, CHR 0x00, CHR 0x00] @ ''0C'')
     = [CHR 0x02, CHR 0x00, CHR 0x00, CHR 0x00] @ ''0C''"
  "stuff_data ([CHR 0x03, CHR 0x00, CHR 0x00, CHR 0x00] @ ''1'')
     = [CHR 0x03, CHR 0x00, CHR 0x00, CHR 0x00] @ ''1''"
  by (simp_all add: stuff_data_def replace_def BEFORE_STUFF_def AFTER_STUFF_def)

lemma pack_small:
  "pack_L 0 = Inr [CHR 0x00, CHR 0x00, CHR 0x00, CHR 0x00]"
  "pack_L 1 = Inr [CHR 0x01, CHR 0x00, CHR 0x00, CHR 0x00]"
  "pack_L 2 = Inr [CHR 0x02, CHR 0x00, CHR 0x00, CHR 0x00]"
  "pack_L 3 = Inr [CHR 0x03, CHR 0x00, CHR 0x00, CHR 0x00]"
  by (simp_all add: pack_L_def char_of_eq_iff)

lemma encode_hello: "str_to_bytes (map of_char ''hello.txt'') = Inr ''hello.txt''"
  by (simp add: byte_def char_of_eq_iff)

lemma decode_hello: "decode_utf8 ''hello.txt'' = Inr (map of_char ''hello.txt'')"
  by (simp add: decode_utf8_def)

lemma new_client_fields:
  "CHUNK_SIZE new_client = 1024"
  "FILE_TRANSFER_STREAMS new_client = [7771, 7772, 7773, 7774]"
  "next_message_id new_client = 0"
  "message_id_to_was_acked new_client = Map.empty"
  "messages_ids_that_have_been_received new_client = Map.empty"
  "file_stream_id_to_chunks new_client 7771 = Some Map.empty"
  "file_stream_id_to_is_available new_client 7771 = Some True"
  "listen_data new_client = []"
  "peer_sent new_client = []"
  "upcalls new_client = []"
  "prints new_client = []"
  "threads new_client = [Listen]"
  by (simp_all add: new_client_def)

lemma send_reliable_stream_message_acked:
  assumes "wrap_reliable_stream message (next_message_id c + 1) stream_id = Inr f"
    and "next_message_id c + 1 \<noteq> 0"
  shows "send_reliable_stream_message (Suc 0)
           (\<lambda>c. snd (handle_unwrapped_message c None None None (Some (next_message_id c))))
           c message stream_id
         = Some (None, c\<lparr>next_message_id := next_message_id c + 1,
              message_id_to_was_acked := (message_id_to_was_acked c)(next_message_id c + 1 \<mapsto> True),
              peer_sent := peer_sent c @ [f],
              threads := threads c @ [Thread_without_target]\<rparr>)"
  using assms
  by (simp add: send_reliable_stream_message_def get_next_message_id_def
      send_message_and_wait_for_ack_def peer_send_def handle_unwrapped_message_def
      dict_setitem_def start_thread_def)

lemma sender:
  assumes f: "wrap_reliable_stream ([CHR 0x00, CHR 0x00, CHR 0x00, CHR 0x00] @ ''0hello.txt'') 1 7771 = Inr f0"
    "wrap_reliable_stream ([CHR 0x01, CHR 0x00, CHR 0x00, CHR 0x00] @ ''0AB'') 2 7771 = Inr f1"
    "wrap_reliable_stream ([CHR 0x02, CHR 0x00, CHR 0x00, CHR 0x00] @ ''0C'') 3 7771 = Inr f2"
    "wrap_reliable_stream ([CHR 0x03, CHR 0x00, CHR 0x00, CHR 0x00] @ ''1'') 4 7771 = Inr f3"
    and c: "CHUNK_SIZE c = 2" "FILE_TRANSFER_STREAMS c = [7771, 7772, 7773, 7774]"
      "file_stream_id_to_is_available c 7771 = Some True" "next_message_id c = 0"
      "peer_sent c = []"
  shows "\<exists>A. handle_file_send (Suc 0)
           (\<lambda>c. snd (handle_unwrapped_message c None None None (Some (next_message_id c))))
           c (map of_char ''hello.txt'') ''ABC'' = Some (None, A) \<and>
         peer_sent A = [f0, f1, f2, f3]"
proof -
  let ?sleep = "\<lambda>c. snd (handle_unwrapped_message c None None None (Some (next_message_id c)))"
  define sent where "sent = (\<lambda>(c :: client) f. c\<lparr>next_message_id := next_message_id c + 1,
      message_id_to_was_acked := (message_id_to_was_acked c)(next_message_id c + 1 \<mapsto> True),
      peer_sent := peer_sent c @ [f],
      threads := threads c @ [Thread_without_target]\<rparr>)"
  define c0 where "c0 = c\<lparr>file_stream_id_to_is_available :=
      (file_stream_id_to_is_available c)(7771 \<mapsto> False)\<rparr>"
  define c1 where "c1 = sent c0 f0"
  define c2 where "c2 = sent c1 f1"
  define c3 where "c3 = sent c2 f2"
  define c4 where "c4 = sent c3 f3"
  have n: "next_message_id c0 = 0" "next_message_id c1 = 1" "next_message_id c2 = 2"
    "next_message_id c3 = 3"
    by (simp_all add: c0_def c1_def c2_def c3_def sent_def c)
  have cs: "CHUNK_SIZE c0 = 2" "CHUNK_SIZE c1 = 2" "CHUNK_SIZE c2 = 2" "CHUNK_SIZE c3 = 2"
    by (simp_all add: c0_def c1_def c2_def c3_def sent_def c)
  have lock: "lock_file_stream c = Some (Inr 7771, c0)"
    by (simp add: lock_file_stream_def c c0_def)
  have s0: "send_reliable_stream_message (Suc 0) ?sleep c0
      ([CHR 0x00, CHR 0x00, CHR 0x00, CHR 0x00] @ ''0'' @ ''hello.txt'') 7771 = Some (None, c1)"
    using send_reliable_stream_message_acked [of _ c0 7771 f0] f(1)
    by (simp add: n c1_def sent_def)
  have s1: "send_reliable_stream_message (Suc 0) ?sleep c1
      ([CHR 0x01, CHR 0x00, CHR 0x00, CHR 0x00] @ ''0'' @ ''AB'') 7771 = Some (None, c2)"
    using send_reliable_stream_message_acked [of _ c1 7771 f1] f(2)
    by (simp add: n c2_def sent_def)
  have s2: "send_reliable_stream_message (Suc 0) ?sleep c2
      ([CHR 0x02, CHR 0x00, CHR 0x00, CHR 0x00] @ ''0'' @ ''C'') 7771 = Some (None, c3)"
    using send_reliable_stream_message_acked [of _ c2 7771 f2] f(3)
    by (simp add: n c3_def sent_def)
  have s3: "send_reliable_stream_message (Suc 0) ?sleep c3
      ([CHR 0x03, CHR 0x00, CHR 0x00, CHR 0x00] @ ''1'') 7771 = Some (None, c4)"
    using send_reliable_stream_message_acked [of _ c3 7771 f3] f(4)
    by (simp add: n c4_def sent_def)
  have enc: "str_to_bytes [104, 101, 108, 108, 111, 46, 116, 120, 116] = Inr ''hello.txt''"
    using encode_hello by simp
  have l3: "file_send_loop (Suc 0) ?sleep c3 7771 2 [] [] = Some (None, c3, 2)"
    by (subst file_send_loop.simps) simp
  have l2: "file_send_loop (Suc 0) ?sleep c2 7771 1 ''C'' [] = Some (None, c3, 2)"
    by (subst file_send_loop.simps)
      (simp add: pack_small s2 [simplified] l3 cs del: file_send_loop.simps)
  have l1: "file_send_loop (Suc 0) ?sleep c1 7771 0 ''AB'' ''C'' = Some (None, c3, 2)"
    by (subst file_send_loop.simps)
      (simp add: pack_small s1 [simplified] l2 cs del: file_send_loop.simps)
  have "handle_file_send (Suc 0) ?sleep c (map of_char ''hello.txt'') ''ABC''
      = Some (None, (?sleep c4)\<lparr>file_stream_id_to_is_available :=
           (file_stream_id_to_is_available (?sleep c4))(7771 \<mapsto> True)\<rparr>)"
    unfolding handle_file_send_def
    by (simp add: lock enc pack_small s0 [simplified] cs l1 s3 [simplified] Let_def
        del: file_send_loop.simps str_to_bytes.simps)
  moreover have "peer_sent (?sleep c4) = [f0, f1, f2, f3]"
    by (simp add: handle_unwrapped_message_def dict_setitem_def c4_def c3_def c2_def c1_def
        c0_def sent_def c)
  ultimately show ?thesis by simp
qed

lemma unpack_small:
  "unpack_L [CHR 0x00, CHR 0x00, CHR 0x00, CHR 0x00] = Inr 0"
  "unpack_L [CHR 0x01, CHR 0x00, CHR 0x00, CHR 0x00] = Inr 1"
  "unpack_L [CHR 0x02, CHR 0x00, CHR 0x00, CHR 0x00] = Inr 2"
  "unpack_L [CHR 0x03, CHR 0x00, CHR 0x00, CHR 0x00] = Inr 3"
  by simp_all

lemma ack_small:
  "\<exists>a. wrap_ack 1 = Inr a" "\<exists>a. wrap_ack 2 = Inr a" "\<exists>a. wrap_ack 3 = Inr a"
  "\<exists>a. wrap_ack 4 = Inr a"
  by (simp_all add: wrap_ack_ok)

lemma receiver:
  assumes u: "unwrap f0 = Inr (Some ([CHR 0x00, CHR 0x00, CHR 0x00, CHR 0x00] @ ''0hello.txt''), Some 1, Some 7771, None, [])"
    "unwrap f1 = Inr (Some ([CHR 0x01, CHR 0x00, CHR 0x00, CHR 0x00] @ ''0AB''), Some 2, Some 7771, None, [])"
    "unwrap f2 = Inr (Some ([CHR 0x02, CHR 0x00, CHR 0x00, CHR 0x00] @ ''0C''), Some 3, Some 7771, None, [])"
    "unwrap f3 = Inr (Some ([CHR 0x03, CHR 0x00, CHR 0x00, CHR 0x00] @ ''1''), Some 4, Some 7771, None, [])"
  shows "\<exists>B B'. dispatch_packets (new_client\<lparr>CHUNK_SIZE := 2\<rparr>) [f0, f1, f2, f3] = (None, B) \<and>
           upcalls B = [] \<and> threads B = [Listen, Handle_file_chunks 7771 3] \<and>
           handle_file_chunks B 7771 3 = Some (None, B') \<and>
           upcalls B' = [On_file (map of_char ''hello.txt'') ''ABC''] \<and>
           file_stream_id_to_chunks B' 7771 = Some Map.empty"
proof -
  obtain a1 a2 a3 a4 where a: "wrap_ack 1 = Inr a1" "wrap_ack 2 = Inr a2" "wrap_ack 3 = Inr a3"
    "wrap_ack 4 = Inr a4"
    using ack_small by blast
  define B where "B = new_client\<lparr>CHUNK_SIZE := 2,
     messages_ids_that_have_been_received := [1 \<mapsto> True, 2 \<mapsto> True, 3 \<mapsto> True, 4 \<mapsto> True],
     file_stream_id_to_chunks := (file_stream_id_to_chunks new_client)
        (7771 \<mapsto> [0 \<mapsto> ''hello.txt'', 1 \<mapsto> ''AB'', 2 \<mapsto> ''C'']),
     peer_sent := [a1, a2, a3, a4],
     threads := [Listen, Handle_file_chunks 7771 3]\<rparr>"
  have d: "dispatch_packets (new_client\<lparr>CHUNK_SIZE := 2\<rparr>) [f0, f1, f2, f3] = (None, B)"
    by (simp add: u a handle_unwrapped_message_def handle_file_message_def peer_send_def
        start_thread_def new_client_fields bslice_def unpack_small B_def Let_def)
  have dom: "card (dom [0 \<mapsto> ''hello.txt'', (1::int) \<mapsto> ''AB'', 2 \<mapsto> ''C'']) = 3"
    by simp
  have col: "collect_chunks [0 \<mapsto> ''hello.txt'', (1::int) \<mapsto> ''AB'', 2 \<mapsto> ''C''] [1 .. 3 - 1] = Inr ''ABC''"
    by (simp add: upto.simps)
  have "handle_file_chunks B 7771 3
      = Some (None, do_upcall (B\<lparr>file_stream_id_to_chunks :=
           (file_stream_id_to_chunks B)(7771 \<mapsto> Map.empty)\<rparr>)
             (On_file (map of_char ''hello.txt'') ''ABC''))"
    unfolding handle_file_chunks_def
    using dom col by (simp add: B_def decode_hello [simplified])
  with d show ?thesis
    by (simp add: B_def do_upcall_def new_client_fields)
qed

section \<open>Finding the Barker and cutting packets\<close>

declare find_bytes.simps [simp del] barker_indexes.simps [simp del]






lemma extract_packets_from: "extract_packets data = packets_from data 0"
  by (simp add: extract_packets_def packets_from_def)

lemma cut_Cons:
  "map (\<lambda>i. bslice d ((k # j # js) ! i) ((k # j # js) ! (i + 1))) [0 ..< length (k # j # js) - 1]
     @ [drop (last (k # j # js)) d]
   = bslice d k j #
     (map (\<lambda>i. bslice d ((j # js) ! i) ((j # js) ! (i + 1))) [0 ..< length (j # js) - 1]
      @ [drop (last (j # js)) d])"
proof -
  have "[0 ..< length (k # j # js) - 1] = 0 # map Suc [0 ..< length (j # js) - 1]"
    by (simp add: upt_conv_Cons map_Suc_upt del: upt_Suc)
  then show ?thesis by (simp add: comp_def del: upt_Suc)
qed

lemma packets_from_rec:
  "packets_from d k =
     (case find_bytes d BARKER (k + 8) of
        None \<Rightarrow> [drop k d]
      | Some j \<Rightarrow> bslice d k j # packets_from d j)"
proof (cases "find_bytes d BARKER (k + 8)")
  case None
  then have "barker_indexes d k = []"
    by (subst barker_indexes.simps) (simp add: BARKER_LENGTH_eq)
  with None show ?thesis by (simp add: packets_from_def)
next
  case (Some j)
  then have "barker_indexes d k = j # barker_indexes d j"
    by (subst barker_indexes.simps) (simp add: BARKER_LENGTH_eq)
  with Some show ?thesis
    unfolding packets_from_def Let_def by (simp only: cut_Cons option.case)
qed
















section \<open>Example frames\<close>










lemma garbage_example:
  "extract_packets (drop 2 ''xxBADFDADFzz'') = [''BADFDADFzz'']"
  "extract_packets ''BADFDADFzz'' = [''BADFDADFzz'']"
  "unwrap ''BADFDADFzz'' = Inl ValueError"
  by (simp_all add: extract_packets_from packets_from_rec find_bytes.simps BARKER_def
      unwrap_def unwrap_body_def BARKER_LENGTH_def PACKET_TYPE_TO_UNWRAPPER_def)

section \<open>One pass of the listener over garbage and two frames\<close>








section \<open>Claims about the codec\<close>

text \<open>
  C1 (codec round trip). For each of the four packet types, a payload \<open>P\<close> and ids in the
  unsigned 32-bit range (with a stuffed payload whose length fits the size field), the
  \<open>wrap_*\<close> function returns a frame, and \<open>unwrap\<close> of that frame returns exactly \<open>P\<close>,
  the message id and stream id that were passed, no acked id, and an empty redundant tail.
  No condition is put on the content of \<open>P\<close>: it may contain \<open>BADFDAD\<close>, \<open>BADFDADZ\<close> or
  the whole Barker.
\<close>

theorem codec_round_trip:
  assumes m: "0 \<le> m" "m < 4294967296" and s: "0 \<le> sid" "sid < 4294967296"
    and len: "int (length (stuff_data P)) < 4294967296"
  shows "(\<exists>f. wrap_reliable P m = Inr f \<and> unwrap f = Inr (Some P, Some m, None, None, [])) \<and>
         (\<exists>f. wrap_unreliable P = Inr f \<and> unwrap f = Inr (Some P, None, None, None, [])) \<and>
         (\<exists>f. wrap_reliable_stream P m sid = Inr f \<and>
              unwrap f = Inr (Some P, Some m, Some sid, None, [])) \<and>
         (\<exists>f. wrap_unreliable_stream P sid = Inr f \<and>
              unwrap f = Inr (Some P, None, Some sid, None, []))"
proof -
  obtain mb where mb: "pack_L m = Inr mb" using pack_L_ok [OF m] by blast
  obtain sb where sb: "pack_L sid = Inr sb" using pack_L_ok [OF s] by blast
  obtain sz where sz: "pack_L (int (length (stuff_data P))) = Inr sz"
    using pack_L_ok [OF _ len] by auto
  obtain cb where cb: "pack_L (crc32 (stuff_data P)) = Inr cb" using pack_L_crc32 by blast
  have "unwrap (BARKER @ [char_of (0::nat)] @ mb @ sz @ stuff_data P @ cb @ [])
      = Inr (Some P, Some m, None, None, [])"
    by (simp only: unwrap_reliable_frame [OF mb sz cb] unstuff_stuff) simp
  then have 0: "\<exists>f. wrap_reliable P m = Inr f \<and> unwrap f = Inr (Some P, Some m, None, None, [])"
    by (simp add: wrap_reliable_frame [OF mb sz cb])
  have "unwrap (BARKER @ [char_of (1::nat)] @ sz @ stuff_data P @ cb @ [])
      = Inr (Some P, None, None, None, [])"
    by (simp only: unwrap_unreliable_frame [OF sz cb] unstuff_stuff) simp
  then have 1: "\<exists>f. wrap_unreliable P = Inr f \<and> unwrap f = Inr (Some P, None, None, None, [])"
    by (simp add: wrap_unreliable_frame [OF sz cb])
  have "unwrap (BARKER @ [char_of (2::nat)] @ mb @ sb @ sz @ stuff_data P @ cb @ [])
      = Inr (Some P, Some m, Some sid, None, [])"
    by (simp only: unwrap_reliable_stream_frame [OF mb sb sz cb] unstuff_stuff) simp
  then have 2: "\<exists>f. wrap_reliable_stream P m sid = Inr f \<and>
      unwrap f = Inr (Some P, Some m, Some sid, None, [])"
    by (simp add: wrap_reliable_stream_frame [OF mb sb sz cb])
  have "unwrap (BARKER @ [char_of (3::nat)] @ sb @ sz @ stuff_data P @ cb @ [])
      = Inr (Some P, None, Some sid, None, [])"
    by (simp only: unwrap_unreliable_stream_frame [OF sb sz cb] unstuff_stuff) simp
  then have 3: "\<exists>f. wrap_unreliable_stream P sid = Inr f \<and>
      unwrap f = Inr (Some P, None, Some sid, None, [])"
    by (simp add: wrap_unreliable_stream_frame [OF sb sz cb])
  from 0 1 2 3 show ?thesis by blast
qed

lemma stuff_data_example:
  "stuff_data ''xBADFDADyBADFDADZzBADFDADF'' = ''xBADFDADZyBADFDADZZzBADFDADZF''"
  by (simp add: stuff_data_def replace_def BEFORE_STUFF_def AFTER_STUFF_def)

text \<open>The round trip at a payload holding \<open>BADFDAD\<close>, \<open>BADFDADZ\<close> and the Barker.\<close>

theorem codec_round_trip_witness:
  "(\<exists>f. wrap_reliable ''xBADFDADyBADFDADZzBADFDADF'' 7 = Inr f \<and>
        unwrap f = Inr (Some ''xBADFDADyBADFDADZzBADFDADF'', Some 7, None, None, [])) \<and>
   (\<exists>f. wrap_unreliable ''xBADFDADyBADFDADZzBADFDADF'' = Inr f \<and>
        unwrap f = Inr (Some ''xBADFDADyBADFDADZzBADFDADF'', None, None, None, [])) \<and>
   (\<exists>f. wrap_reliable_stream ''xBADFDADyBADFDADZzBADFDADF'' 7 7771 = Inr f \<and>
        unwrap f = Inr (Some ''xBADFDADyBADFDADZzBADFDADF'', Some 7, Some 7771, None, [])) \<and>
   (\<exists>f. wrap_unreliable_stream ''xBADFDADyBADFDADZzBADFDADF'' 7771 = Inr f \<and>
        unwrap f = Inr (Some ''xBADFDADyBADFDADZzBADFDADF'', None, Some 7771, None, []))"
  using codec_round_trip [of 7 7771 "''xBADFDADyBADFDADZzBADFDADF''"]
  by (simp add: stuff_data_example)

text \<open>
  C5 (unwrap failure condition). For every buffer, \<open>unwrap\<close> raises \<open>ValueError\<close>, and no
  other exception, exactly when the buffer does not start with the Barker, or has no packet
  type byte or one above 4, or its header or its CRC field is cut short, or the CRC field
  differs from the CRC-32 of the stuffed payload bytes; otherwise it returns the tuple that
  the layout table reads from the buffer.
\<close>

theorem unwrap_failure_condition:
  "unwrap data = (if bad_packet data then Inl ValueError else Inr (parsed data))"
proof (cases "\<not> prefix BARKER data \<or> length data < 9 \<or> 4 < packet_type_of data")
  case True
  then have "bad_packet data" by (auto simp: bad_packet_def Let_def)
  moreover from True have "unwrap data = Inl ValueError"
    by (auto simp: unwrap_def unwrap_body_def BARKER_LENGTH_eq type_byte packet_type_of_def)
  ultimately show ?thesis by simp
next
  case False
  then have t: "packet_type_of data \<le> 4" and p: "prefix BARKER data" "\<not> length data < 9" by auto
  from t consider "packet_type_of data = 0" | "packet_type_of data = 1" | "packet_type_of data = 2"
    | "packet_type_of data = 3" | "packet_type_of data = 4" by linarith
  then show ?thesis
  proof cases
    case 1
    then have "unwrap data = (case unwrap_reliable data of Inl e \<Rightarrow> Inl ValueError | Inr r \<Rightarrow> Inr r)"
      using p by (simp add: unwrap_def unwrap_body_def BARKER_LENGTH_eq type_byte packet_type_of_def)
    then show ?thesis using 1 p
      by (simp only: unwrap_reliable_alt [OF 1]) (auto simp: bad_packet_def Let_def)
  next
    case 2
    then have "unwrap data = (case unwrap_unreliable data of Inl e \<Rightarrow> Inl ValueError | Inr r \<Rightarrow> Inr r)"
      using p by (simp add: unwrap_def unwrap_body_def BARKER_LENGTH_eq type_byte packet_type_of_def)
    then show ?thesis using 2 p
      by (simp only: unwrap_unreliable_alt [OF 2]) (auto simp: bad_packet_def Let_def)
  next
    case 3
    then have "unwrap data = (case unwrap_reliable_stream data of Inl e \<Rightarrow> Inl ValueError | Inr r \<Rightarrow> Inr r)"
      using p by (simp add: unwrap_def unwrap_body_def BARKER_LENGTH_eq type_byte packet_type_of_def)
    then show ?thesis using 3 p
      by (simp only: unwrap_reliable_stream_alt [OF 3]) (auto simp: bad_packet_def Let_def)
  next
    case 4
    then have "unwrap data = (case unwrap_unreliable_stream data of Inl e \<Rightarrow> Inl ValueError | Inr r \<Rightarrow> Inr r)"
      using p by (simp add: unwrap_def unwrap_body_def BARKER_LENGTH_eq type_byte packet_type_of_def)
    then show ?thesis using 4 p
      by (simp only: unwrap_unreliable_stream_alt [OF 4]) (auto simp: bad_packet_def Let_def)
  next
    case 5
    then have "unwrap data = (case unwrap_ack data of Inl e \<Rightarrow> Inl ValueError | Inr r \<Rightarrow> Inr r)"
      using p by (simp add: unwrap_def unwrap_body_def BARKER_LENGTH_eq type_byte packet_type_of_def)
    then show ?thesis using 5 p
      by (simp only: unwrap_ack_alt [OF 5]) (auto simp: bad_packet_def Let_def)
  qed
qed

text \<open>A buffer with packet type 5 is rejected; a complete ACK frame is parsed.\<close>

theorem unwrap_failure_condition_witness:
  "bad_packet (''BADFDADF'' @ [CHR 0x05]) \<and>
   unwrap (''BADFDADF'' @ [CHR 0x05]) = Inl ValueError \<and>
   \<not> bad_packet (''BADFDADF'' @ [CHR 0x04, CHR 0x05, CHR 0x00, CHR 0x00, CHR 0x00]) \<and>
   unwrap (''BADFDADF'' @ [CHR 0x04, CHR 0x05, CHR 0x00, CHR 0x00, CHR 0x00])
     = Inr (None, None, None, Some 5, [])"
proof -
  have b: "bad_packet (''BADFDADF'' @ [CHR 0x05])"
    by (simp add: bad_packet_def packet_type_of_def Let_def)
  have g: "\<not> bad_packet (''BADFDADF'' @ [CHR 0x04, CHR 0x05, CHR 0x00, CHR 0x00, CHR 0x00])"
    by (simp add: bad_packet_def packet_type_of_def header_length_def BARKER_def Let_def)
  have p: "parsed (''BADFDADF'' @ [CHR 0x04, CHR 0x05, CHR 0x00, CHR 0x00, CHR 0x00])
      = (None, None, None, Some 5, [])"
    by (simp add: parsed_def packet_type_of_def header_length_def bslice_def Let_def)
  show ?thesis
    using unwrap_failure_condition [of "''BADFDADF'' @ [CHR 0x05]"]
      unwrap_failure_condition [of "''BADFDADF'' @ [CHR 0x04, CHR 0x05, CHR 0x00, CHR 0x00, CHR 0x00]"]
      b g p by simp
qed

text \<open>
  C7 (frame layout). For ids in the unsigned 32-bit range and a stuffed payload whose length
  fits the size field, every \<open>wrap_*\<close> function emits the 8-byte Barker, the type byte, and
  the fields of its row of the layout table in order, each integer field being four bytes
  with the little-endian value of the integer; the size field holds the length of the
  stuffed payload and the CRC field the CRC-32 of the stuffed payload. An ACK frame is the
  Barker, the type byte 4 and the acked id: 13 bytes, no CRC.
\<close>

theorem frame_layout:
  assumes m: "0 \<le> m" "m < 4294967296" and s: "0 \<le> sid" "sid < 4294967296"
    and a: "0 \<le> acked" "acked < 4294967296"
    and len: "int (length (stuff_data P)) < 4294967296"
  shows "BARKER = ''BADFDADF'' \<and>
    (\<exists>mb sz cb. wrap_reliable P m = Inr (BARKER @ [CHR 0x00] @ mb @ sz @ stuff_data P @ cb) \<and>
        u32_le mb m \<and> u32_le sz (int (length (stuff_data P))) \<and>
        u32_le cb (crc32 (stuff_data P))) \<and>
    (\<exists>sz cb. wrap_unreliable P = Inr (BARKER @ [CHR 0x01] @ sz @ stuff_data P @ cb) \<and>
        u32_le sz (int (length (stuff_data P))) \<and> u32_le cb (crc32 (stuff_data P))) \<and>
    (\<exists>mb sb sz cb.
        wrap_reliable_stream P m sid
          = Inr (BARKER @ [CHR 0x02] @ mb @ sb @ sz @ stuff_data P @ cb) \<and>
        u32_le mb m \<and> u32_le sb sid \<and> u32_le sz (int (length (stuff_data P))) \<and>
        u32_le cb (crc32 (stuff_data P))) \<and>
    (\<exists>sb sz cb. wrap_unreliable_stream P sid
          = Inr (BARKER @ [CHR 0x03] @ sb @ sz @ stuff_data P @ cb) \<and>
        u32_le sb sid \<and> u32_le sz (int (length (stuff_data P))) \<and>
        u32_le cb (crc32 (stuff_data P))) \<and>
    (\<exists>ab. wrap_ack acked = Inr (BARKER @ [CHR 0x04] @ ab) \<and> u32_le ab acked \<and>
        length (BARKER @ [CHR 0x04] @ ab) = 13)"
proof -
  obtain mb where mb: "pack_L m = Inr mb" using pack_L_ok [OF m] by blast
  obtain sb where sb: "pack_L sid = Inr sb" using pack_L_ok [OF s] by blast
  obtain ab where ab: "pack_L acked = Inr ab" using pack_L_ok [OF a] by blast
  obtain sz where sz: "pack_L (int (length (stuff_data P))) = Inr sz"
    using pack_L_ok [OF _ len] by auto
  obtain cb where cb: "pack_L (crc32 (stuff_data P)) = Inr cb" using pack_L_crc32 by blast
  note u = pack_L_u32_le [OF mb] pack_L_u32_le [OF sb] pack_L_u32_le [OF ab]
    pack_L_u32_le [OF sz] pack_L_u32_le [OF cb]
  have 0: "\<exists>mb sz cb. wrap_reliable P m = Inr (BARKER @ [CHR 0x00] @ mb @ sz @ stuff_data P @ cb) \<and>
        u32_le mb m \<and> u32_le sz (int (length (stuff_data P))) \<and>
        u32_le cb (crc32 (stuff_data P))"
    using wrap_reliable_frame [OF mb sz cb] u unfolding type_bytes by blast
  have 1: "\<exists>sz cb. wrap_unreliable P = Inr (BARKER @ [CHR 0x01] @ sz @ stuff_data P @ cb) \<and>
        u32_le sz (int (length (stuff_data P))) \<and> u32_le cb (crc32 (stuff_data P))"
    using wrap_unreliable_frame [OF sz cb] u unfolding type_bytes by blast
  have 2: "\<exists>mb sb sz cb.
        wrap_reliable_stream P m sid
          = Inr (BARKER @ [CHR 0x02] @ mb @ sb @ sz @ stuff_data P @ cb) \<and>
        u32_le mb m \<and> u32_le sb sid \<and> u32_le sz (int (length (stuff_data P))) \<and>
        u32_le cb (crc32 (stuff_data P))"
    using wrap_reliable_stream_frame [OF mb sb sz cb] u unfolding type_bytes by blast
  have 3: "\<exists>sb sz cb. wrap_unreliable_stream P sid
          = Inr (BARKER @ [CHR 0x03] @ sb @ sz @ stuff_data P @ cb) \<and>
        u32_le sb sid \<and> u32_le sz (int (length (stuff_data P))) \<and>
        u32_le cb (crc32 (stuff_data P))"
    using wrap_unreliable_stream_frame [OF sb sz cb] u unfolding type_bytes by blast
  have "length (BARKER @ [CHR 0x04] @ ab) = 13"
    using pack_L_length [OF ab] by (simp add: length_BARKER)
  then have 4: "\<exists>ab. wrap_ack acked = Inr (BARKER @ [CHR 0x04] @ ab) \<and> u32_le ab acked \<and>
        length (BARKER @ [CHR 0x04] @ ab) = 13"
    using wrap_ack_frame [OF ab] u unfolding type_bytes by blast
  from 0 1 2 3 4 show ?thesis by (simp add: BARKER_def)
qed

text \<open>The ACK frame for id 258, byte by byte, and the reliable frame of \<open>hi\<close>.\<close>

theorem frame_layout_witness:
  "wrap_ack 258 = Inr (''BADFDADF'' @ [CHR 0x04, CHR 0x02, CHR 0x01, CHR 0x00, CHR 0x00]) \<and>
   (\<exists>mb sz cb. wrap_reliable ''hi'' 258 = Inr (''BADFDADF'' @ [CHR 0x00] @ mb @ sz @ ''hi'' @ cb) \<and>
      u32_le mb 258 \<and> u32_le sz 2 \<and> u32_le cb (crc32 ''hi''))"
proof -
  have sh: "stuff_data ''hi'' = ''hi''"
    by (simp add: stuff_data_def replace_def BEFORE_STUFF_def AFTER_STUFF_def)
  have *: "\<And>ab. u32_le ab 258 \<Longrightarrow> ab = [CHR 0x02, CHR 0x01, CHR 0x00, CHR 0x00]"
  proof -
    fix ab assume "u32_le ab 258"
    then have "unpack_L ab = Inr 258" by (simp add: u32_le_def unpack_L_alt)
    then have "pack_L 258 = Inr ab" by (rule pack_unpack_L)
    then show "ab = [CHR 0x02, CHR 0x01, CHR 0x00, CHR 0x00]"
      by (simp add: pack_L_def char_of_def)
  qed
  show ?thesis
    using frame_layout [of 258 7771 258 "''hi''"] *
    by (auto simp: sh BARKER_def)
qed

text \<open>
  C9 (CRC single-byte rejection). In a frame of type 0 to 3, replacing the byte at any
  position \<open>i\<close> of the stuffed payload by any different byte \<open>b\<close>, header and CRC field left
  as they are, gives a buffer on which \<open>unwrap\<close> raises \<open>ValueError\<close>.
\<close>

theorem crc_single_byte_rejection:
  assumes m: "0 \<le> m" "m < 4294967296" and s: "0 \<le> sid" "sid < 4294967296"
    and len: "int (length (stuff_data P)) < 4294967296"
    and i: "i < length (stuff_data P)" and b: "b \<noteq> stuff_data P ! i"
  shows "(\<exists>f. wrap_reliable P m = Inr f \<and> unwrap (f[17 + i := b]) = Inl ValueError) \<and>
         (\<exists>f. wrap_unreliable P = Inr f \<and> unwrap (f[13 + i := b]) = Inl ValueError) \<and>
         (\<exists>f. wrap_reliable_stream P m sid = Inr f \<and>
              unwrap (f[21 + i := b]) = Inl ValueError) \<and>
         (\<exists>f. wrap_unreliable_stream P sid = Inr f \<and>
              unwrap (f[17 + i := b]) = Inl ValueError)"
proof -
  let ?S = "stuff_data P"
  obtain mb where mb: "pack_L m = Inr mb" using pack_L_ok [OF m] by blast
  obtain sb where sb: "pack_L sid = Inr sb" using pack_L_ok [OF s] by blast
  obtain sz where sz: "pack_L (int (length ?S)) = Inr sz"
    using pack_L_ok [OF _ len] by auto
  obtain cb where cb: "pack_L (crc32 ?S) = Inr cb" using pack_L_crc32 by blast
  have l: "length mb = 4" "length sb = 4" "length sz = 4"
    using mb sb sz by (auto dest: pack_L_length)
  have sz': "pack_L (int (length (?S[i := b]))) = Inr sz" using sz by simp
  have ne: "crc32 ?S \<noteq> crc32 (?S[i := b])"
    using crc32_single_byte [OF i b] by simp
  have "unwrap ((BARKER @ [char_of (0::nat)] @ mb @ sz) @ ?S[i := b] @ cb @ []) = Inl ValueError"
    using unwrap_reliable_frame [OF mb sz' cb, of "[]"] ne by simp
  moreover have "((BARKER @ [char_of (0::nat)] @ mb @ sz) @ ?S @ cb)[17 + i := b]
      = (BARKER @ [char_of (0::nat)] @ mb @ sz) @ ?S[i := b] @ cb"
    using i l by (intro frame_update) (simp_all add: length_BARKER)
  ultimately have 0: "\<exists>f. wrap_reliable P m = Inr f \<and> unwrap (f[17 + i := b]) = Inl ValueError"
    using wrap_reliable_frame [OF mb sz cb] by simp
  have "unwrap ((BARKER @ [char_of (1::nat)] @ sz) @ ?S[i := b] @ cb @ []) = Inl ValueError"
    using unwrap_unreliable_frame [OF sz' cb, of "[]"] ne by simp
  moreover have "((BARKER @ [char_of (1::nat)] @ sz) @ ?S @ cb)[13 + i := b]
      = (BARKER @ [char_of (1::nat)] @ sz) @ ?S[i := b] @ cb"
    using i l by (intro frame_update) (simp_all add: length_BARKER)
  ultimately have 1: "\<exists>f. wrap_unreliable P = Inr f \<and> unwrap (f[13 + i := b]) = Inl ValueError"
    using wrap_unreliable_frame [OF sz cb] by simp
  have "unwrap ((BARKER @ [char_of (2::nat)] @ mb @ sb @ sz) @ ?S[i := b] @ cb @ [])
      = Inl ValueError"
    using unwrap_reliable_stream_frame [OF mb sb sz' cb, of "[]"] ne by simp
  moreover have "((BARKER @ [char_of (2::nat)] @ mb @ sb @ sz) @ ?S @ cb)[21 + i := b]
      = (BARKER @ [char_of (2::nat)] @ mb @ sb @ sz) @ ?S[i := b] @ cb"
    using i l by (intro frame_update) (simp_all add: length_BARKER)
  ultimately have 2: "\<exists>f. wrap_reliable_stream P m sid = Inr f \<and>
      unwrap (f[21 + i := b]) = Inl ValueError"
    using wrap_reliable_stream_frame [OF mb sb sz cb] by simp
  have "unwrap ((BARKER @ [char_of (3::nat)] @ sb @ sz) @ ?S[i := b] @ cb @ []) = Inl ValueError"
    using unwrap_unreliable_stream_frame [OF sb sz' cb, of "[]"] ne by simp
  moreover have "((BARKER @ [char_of (3::nat)] @ sb @ sz) @ ?S @ cb)[17 + i := b]
      = (BARKER @ [char_of (3::nat)] @ sb @ sz) @ ?S[i := b] @ cb"
    using i l by (intro frame_update) (simp_all add: length_BARKER)
  ultimately have 3: "\<exists>f. wrap_unreliable_stream P sid = Inr f \<and>
      unwrap (f[17 + i := b]) = Inl ValueError"
    using wrap_unreliable_stream_frame [OF sb sz cb] by simp
  from 0 1 2 3 show ?thesis by blast
qed

text \<open>The second payload byte of the frames of \<open>hi\<close> changed to \<open>j\<close>.\<close>

theorem crc_single_byte_rejection_witness:
  "(\<exists>f. wrap_reliable ''hi'' 1 = Inr f \<and> unwrap (f[17 + 1 := CHR ''j'']) = Inl ValueError) \<and>
   (\<exists>f. wrap_unreliable ''hi'' = Inr f \<and> unwrap (f[13 + 1 := CHR ''j'']) = Inl ValueError) \<and>
   (\<exists>f. wrap_reliable_stream ''hi'' 1 7771 = Inr f \<and>
        unwrap (f[21 + 1 := CHR ''j'']) = Inl ValueError) \<and>
   (\<exists>f. wrap_unreliable_stream ''hi'' 7771 = Inr f \<and>
        unwrap (f[17 + 1 := CHR ''j'']) = Inl ValueError)"
proof -
  have sh: "stuff_data ''hi'' = ''hi''"
    by (simp add: stuff_data_def replace_def BEFORE_STUFF_def AFTER_STUFF_def)
  show ?thesis
    using crc_single_byte_rejection [of 1 7771 "''hi''" 1 "CHR ''j''"]
    by (simp add: sh)
qed

text \<open>
  C10 (header fields are not integrity-protected). Replacing the four message-id bytes of
  \<open>wrap_reliable P m\<close> (offsets 9 to 12) by the encoding of any other id \<open>m'\<close> gives a buffer
  that \<open>unwrap\<close> accepts, returning the payload \<open>P\<close> and the message id \<open>m'\<close>.
\<close>

theorem header_not_protected:
  assumes m: "0 \<le> m" "m < 4294967296" and m': "0 \<le> m'" "m' < 4294967296"
    and len: "int (length (stuff_data P)) < 4294967296"
  shows "\<exists>f mb'. wrap_reliable P m = Inr f \<and> pack_L m' = Inr mb' \<and>
           unwrap (take 9 f @ mb' @ drop 13 f) = Inr (Some P, Some m', None, None, [])"
proof -
  obtain mb where mb: "pack_L m = Inr mb" using pack_L_ok [OF m] by blast
  obtain mb' where mb': "pack_L m' = Inr mb'" using pack_L_ok [OF m'] by blast
  obtain sz where sz: "pack_L (int (length (stuff_data P))) = Inr sz"
    using pack_L_ok [OF _ len] by auto
  obtain cb where cb: "pack_L (crc32 (stuff_data P)) = Inr cb" using pack_L_crc32 by blast
  let ?f = "BARKER @ [char_of (0::nat)] @ mb @ sz @ stuff_data P @ cb"
  have l: "length mb = 4" using mb by (rule pack_L_length)
  have t: "take 9 ?f = BARKER @ [char_of (0::nat)]"
    by (simp add: length_BARKER)
  have d: "drop 13 ?f = sz @ stuff_data P @ cb"
    using l by (simp add: length_BARKER)
  have "unwrap (BARKER @ [char_of (0::nat)] @ mb' @ sz @ stuff_data P @ cb @ [])
      = Inr (Some P, Some m', None, None, [])"
    by (simp only: unwrap_reliable_frame [OF mb' sz cb] unstuff_stuff) simp
  then have "unwrap (take 9 ?f @ mb' @ drop 13 ?f) = Inr (Some P, Some m', None, None, [])"
    by (simp only: t d) simp
  with wrap_reliable_frame [OF mb sz cb] mb' show ?thesis by blast
qed

text \<open>The frame of \<open>hi\<close> with id 1, its id bytes replaced by those of 2.\<close>

theorem header_not_protected_witness:
  "\<exists>f mb'. wrap_reliable ''hi'' 1 = Inr f \<and> pack_L 2 = Inr mb' \<and>
     unwrap (take 9 f @ mb' @ drop 13 f) = Inr (Some ''hi'', Some 2, None, None, [])"
proof -
  have sh: "stuff_data ''hi'' = ''hi''"
    by (simp add: stuff_data_def replace_def BEFORE_STUFF_def AFTER_STUFF_def)
  show ?thesis
    using header_not_protected [of 1 2 "''hi''"] by (simp add: sh)
qed

section \<open>Claims about the peer engine\<close>

text \<open>
  C2 (dedup under retransmission, unconditional ACK). Let a reliable frame carry the message
  id \<open>m\<close>, not yet in the received ids, and let the handler process its tuple \<open>N \<ge> 1\<close>
  times. Then the ACK frame of \<open>m\<close> is sent \<open>N\<close> times, and the state after the \<open>N\<close>
  deliveries is the state after the first one with \<open>N - 1\<close> more ACKs sent: the upcall
  (\<open>on_reliable_message\<close>, \<open>on_reliable_stream_message\<close>, or the file branch) is made once,
  by the first delivery.
\<close>

theorem dedup_under_retransmission:
  fixes message sid
  assumes m: "0 \<le> m" "m < 4294967296"
    and new: "messages_ids_that_have_been_received c m = None"
    and N: "1 \<le> N"
  defines "deliver \<equiv> \<lambda>c. snd (handle_unwrapped_message c message (Some m) sid None)"
  shows "\<exists>ack. wrap_ack m = Inr ack \<and>
           peer_sent ((deliver ^^ N) c) = peer_sent c @ replicate N ack \<and>
           (deliver ^^ N) c = (deliver c)\<lparr>peer_sent := peer_sent (deliver c) @ replicate (N - 1) ack\<rparr> \<and>
           (sid = None \<longrightarrow> upcalls ((deliver ^^ N) c) = upcalls c @ [On_reliable_message message]) \<and>
           (\<forall>s. sid = Some s \<and> s \<notin> set (FILE_TRANSFER_STREAMS c) \<longrightarrow>
                upcalls ((deliver ^^ N) c) = upcalls c @ [On_reliable_stream_message message s]) \<and>
           (\<forall>s. sid = Some s \<and> s \<in> set (FILE_TRANSFER_STREAMS c) \<longrightarrow>
                deliver c = snd (handle_file_message
                  ((peer_send c ack)\<lparr>messages_ids_that_have_been_received :=
                      (messages_ids_that_have_been_received c)(m \<mapsto> True)\<rparr>) message s))"
proof -
  obtain ack where ack: "wrap_ack m = Inr ack" using wrap_ack_ok [OF m] by blast
  obtain n where n: "N = Suc n" using N by (cases N) auto
  have seen: "messages_ids_that_have_been_received (deliver c) m \<noteq> None"
    unfolding deliver_def using handle_first_effects(2) [OF ack new] by simp
  have rest: "(deliver ^^ N) c = (deliver c)\<lparr>peer_sent := peer_sent (deliver c) @ replicate n ack\<rparr>"
    unfolding n
    using handle_again [OF ack seen [unfolded deliver_def], where message = message and sid = sid and n = n]
    by (simp only: funpow_Suc_right o_apply deliver_def)
  have sent1: "peer_sent (deliver c) = peer_sent c @ [ack]"
    unfolding deliver_def using handle_first_effects(1) [OF ack new] by simp
  have "peer_sent ((deliver ^^ N) c) = peer_sent (deliver c) @ replicate n ack"
    by (subst rest) simp
  then have sent: "peer_sent ((deliver ^^ N) c) = peer_sent c @ replicate N ack"
    using sent1 by (simp add: n replicate_append_same del: funpow.simps)
  have u0: "sid = None \<longrightarrow> upcalls ((deliver ^^ N) c) = upcalls c @ [On_reliable_message message]"
    unfolding rest by (simp add: deliver_def handle_first [OF ack new] do_upcall_def peer_send_def)
  have u1: "\<forall>s. sid = Some s \<and> s \<notin> set (FILE_TRANSFER_STREAMS c) \<longrightarrow>
      upcalls ((deliver ^^ N) c) = upcalls c @ [On_reliable_stream_message message s]"
    unfolding rest by (simp add: deliver_def handle_first [OF ack new] do_upcall_def peer_send_def)
  have u2: "\<forall>s. sid = Some s \<and> s \<in> set (FILE_TRANSFER_STREAMS c) \<longrightarrow>
      deliver c = snd (handle_file_message
        ((peer_send c ack)\<lparr>messages_ids_that_have_been_received :=
            (messages_ids_that_have_been_received c)(m \<mapsto> True)\<rparr>) message s)"
    by (simp add: deliver_def handle_first [OF ack new])
  have "N - 1 = n" by (simp add: n)
  with ack sent rest u0 u1 u2 show ?thesis by (intro exI [of _ ack]) (simp del: funpow.simps)
qed

text \<open>Three deliveries of the reliable message \<open>x\<close> with id 1 to a new peer.\<close>

theorem dedup_under_retransmission_witness:
  "\<exists>ack. wrap_ack 1 = Inr ack \<and>
     peer_sent (((\<lambda>c. snd (handle_unwrapped_message c (Some ''x'') (Some 1) None None)) ^^ 3)
       new_client) = [ack, ack, ack] \<and>
     upcalls (((\<lambda>c. snd (handle_unwrapped_message c (Some ''x'') (Some 1) None None)) ^^ 3)
       new_client) = [On_reliable_message (Some ''x'')]"
proof -
  have "messages_ids_that_have_been_received new_client 1 = None"
    by (simp add: new_client_def)
  from dedup_under_retransmission [where m = 1 and c = new_client and N = 3
      and message = "Some ''x''" and sid = None, OF _ _ this]
  obtain ack where "wrap_ack 1 = Inr ack"
    and "peer_sent (((\<lambda>c. snd (handle_unwrapped_message c (Some ''x'') (Some 1) None None)) ^^ 3)
       new_client) = peer_sent new_client @ replicate 3 ack"
    and "upcalls (((\<lambda>c. snd (handle_unwrapped_message c (Some ''x'') (Some 1) None None)) ^^ 3)
       new_client) = upcalls new_client @ [On_reliable_message (Some ''x'')]"
    by auto
  moreover have "peer_sent new_client = []" "upcalls new_client = []"
    by (simp_all add: new_client_def)
  moreover have "replicate 3 ack = [ack, ack, ack]" for ack :: bytes
    by (simp add: numeral_3_eq_3)
  ultimately show ?thesis by (intro exI [of _ ack]) (simp del: funpow.simps)
qed

text \<open>
  C4 (unknown ACK). The claim is that an ACK for an id absent from the outstanding-ACK table
  is logged and leaves the table unchanged. The handler stores into the dictionary, which
  never raises \<open>KeyError\<close>: on a new peer, the ACK frame for id 5 creates the entry
  \<open>5 \<mapsto> True\<close> and prints nothing. An ACK for id 0 (never allocated either) fails the
  test \<open>if acked_message_id\<close> and is delivered as an unreliable message.
\<close>

theorem unknown_ack_creates_entry:
  "message_id_to_was_acked new_client 5 = None \<and>
   unwrap (''BADFDADF'' @ [CHR 0x04, CHR 0x05, CHR 0x00, CHR 0x00, CHR 0x00])
     = Inr (None, None, None, Some 5, []) \<and>
   fst (handle_unwrapped_message new_client None None None (Some 5)) = None \<and>
   message_id_to_was_acked (snd (handle_unwrapped_message new_client None None None (Some 5))) 5
     = Some True \<and>
   prints (snd (handle_unwrapped_message new_client None None None (Some 5))) = [] \<and>
   upcalls (snd (handle_unwrapped_message new_client None None None (Some 0)))
     = [On_unreliable_message None]"
proof -
  have "pack_L 5 = Inr [CHR 0x05, CHR 0x00, CHR 0x00, CHR 0x00]"
    by (simp add: pack_L_def char_of_eq_iff)
  from unwrap_ack_frame [OF this, of "[]"]
  have "unwrap (''BADFDADF'' @ [CHR 0x04, CHR 0x05, CHR 0x00, CHR 0x00, CHR 0x00])
     = Inr (None, None, None, Some 5, [])"
    by (simp add: BARKER_def type_bytes)
  then show ?thesis
    by (simp add: handle_unwrapped_message_def dict_setitem_def do_upcall_def new_client_def)
qed

text \<open>
  C3 (non-blocking reliable send). The claim is that \<open>send_reliable\<close> and
  \<open>send_reliable_stream_message\<close> return at once, before any ACK, the retransmission loop
  running in a task of its own. In the code the loop is the argument of \<open>Thread\<close> and runs
  in the caller: on a peer whose state no other thread changes (no ACK ever arrives),
  neither function has returned after any number of evaluations of the loop condition.
\<close>

theorem send_reliable_blocks:
  "\<forall>fuel. send_reliable fuel (\<lambda>c. c) new_client ''x'' = None \<and>
          send_reliable_stream_message fuel (\<lambda>c. c) new_client ''x'' 5 = None"
proof
  fix fuel
  obtain f where f: "wrap_reliable ''x'' 1 = Inr f" using wrap_reliable_x by blast
  obtain g where g: "wrap_reliable_stream ''x'' 1 5 = Inr g"
    using wrap_reliable_stream_ok [of 1 5 "''x''"]
    by (auto simp: stuff_data_def replace_def BEFORE_STUFF_def AFTER_STUFF_def)
  let ?c = "new_client\<lparr>next_message_id := 1, message_id_to_was_acked := [1 \<mapsto> False]\<rparr>"
  have "message_id_to_was_acked (peer_send ?c b) 1 = Some False" for b
    by (simp add: peer_send_def)
  then have "wait_for_ack fuel (\<lambda>c. c) (peer_send ?c f) f 1 = None"
    "wait_for_ack fuel (\<lambda>c. c) (peer_send ?c g) g 1 = None"
    by (simp_all add: wait_for_ack_never)
  then show "send_reliable fuel (\<lambda>c. c) new_client ''x'' = None \<and>
      send_reliable_stream_message fuel (\<lambda>c. c) new_client ''x'' 5 = None"
    by (simp add: send_reliable_def send_reliable_stream_message_def get_next_message_id_def
        send_message_and_wait_for_ack_def f g new_client_def)
qed

text \<open>
  C8 (file transfer end to end). On peer A, new, with \<open>CHUNK_SIZE = 2\<close>, \<open>send_file\<close>
  starts the thread of \<open>_handle_file_send\<close> for the existing file \<open>hello.txt\<close> with contents
  \<open>ABC\<close>, which runs while the
  listener receives the ACK of the latest message during every sleep (a lossless pipe to a
  peer that answers). A sends exactly four frames, the reliable-stream frames with message
  ids 1 to 4 on stream 7771 of: index 0, flag \<open>0\<close>, the name; index 1, flag \<open>0\<close>, \<open>AB\<close>;
  index 2, flag \<open>0\<close>, \<open>C\<close>; index 3, flag \<open>1\<close>, nothing. Peer B, new, to which the four
  frames are dispatched, makes no upcall and starts one finaliser for stream 7771 with
  3 chunks; the finaliser returns, makes the one upcall \<open>on_file("hello.txt", b"ABC")\<close> and
  leaves the chunk table of stream 7771 empty.
\<close>

theorem file_transfer_end_to_end:
  "\<exists>f0 f1 f2 f3 A0 A B B'.
     send_file (new_client\<lparr>CHUNK_SIZE := 2\<rparr>) True (map of_char ''hello.txt'') = (None, A0) \<and>
     threads A0 = [Listen, Handle_file_send (map of_char ''hello.txt'')] \<and>
     wrap_reliable_stream ([CHR 0x00, CHR 0x00, CHR 0x00, CHR 0x00] @ ''0hello.txt'') 1 7771 = Inr f0 \<and>
     wrap_reliable_stream ([CHR 0x01, CHR 0x00, CHR 0x00, CHR 0x00] @ ''0AB'') 2 7771 = Inr f1 \<and>
     wrap_reliable_stream ([CHR 0x02, CHR 0x00, CHR 0x00, CHR 0x00] @ ''0C'') 3 7771 = Inr f2 \<and>
     wrap_reliable_stream ([CHR 0x03, CHR 0x00, CHR 0x00, CHR 0x00] @ ''1'') 4 7771 = Inr f3 \<and>
     handle_file_send (Suc 0)
       (\<lambda>c. snd (handle_unwrapped_message c None None None (Some (next_message_id c))))
       A0 (map of_char ''hello.txt'') ''ABC'' = Some (None, A) \<and>
     peer_sent A = [f0, f1, f2, f3] \<and>
     dispatch_packets (new_client\<lparr>CHUNK_SIZE := 2\<rparr>) [f0, f1, f2, f3] = (None, B) \<and>
     upcalls B = [] \<and> threads B = [Listen, Handle_file_chunks 7771 3] \<and>
     handle_file_chunks B 7771 3 = Some (None, B') \<and>
     upcalls B' = [On_file (map of_char ''hello.txt'') ''ABC''] \<and>
     file_stream_id_to_chunks B' 7771 = Some Map.empty"
proof -
  obtain f0 where f0: "wrap_reliable_stream ([CHR 0x00, CHR 0x00, CHR 0x00, CHR 0x00] @ ''0hello.txt'') 1 7771 = Inr f0"
    "unwrap f0 = Inr (Some ([CHR 0x00, CHR 0x00, CHR 0x00, CHR 0x00] @ ''0hello.txt''), Some 1, Some 7771, None, [])"
    using wrap_reliable_stream_ok [of 1 7771 "[CHR 0x00, CHR 0x00, CHR 0x00, CHR 0x00] @ ''0hello.txt''"]
    by (auto simp: stuff_plain [simplified])
  obtain f1 where f1: "wrap_reliable_stream ([CHR 0x01, CHR 0x00, CHR 0x00, CHR 0x00] @ ''0AB'') 2 7771 = Inr f1"
    "unwrap f1 = Inr (Some ([CHR 0x01, CHR 0x00, CHR 0x00, CHR 0x00] @ ''0AB''), Some 2, Some 7771, None, [])"
    using wrap_reliable_stream_ok [of 2 7771 "[CHR 0x01, CHR 0x00, CHR 0x00, CHR 0x00] @ ''0AB''"]
    by (auto simp: stuff_plain [simplified])
  obtain f2 where f2: "wrap_reliable_stream ([CHR 0x02, CHR 0x00, CHR 0x00, CHR 0x00] @ ''0C'') 3 7771 = Inr f2"
    "unwrap f2 = Inr (Some ([CHR 0x02, CHR 0x00, CHR 0x00, CHR 0x00] @ ''0C''), Some 3, Some 7771, None, [])"
    using wrap_reliable_stream_ok [of 3 7771 "[CHR 0x02, CHR 0x00, CHR 0x00, CHR 0x00] @ ''0C''"]
    by (auto simp: stuff_plain [simplified])
  obtain f3 where f3: "wrap_reliable_stream ([CHR 0x03, CHR 0x00, CHR 0x00, CHR 0x00] @ ''1'') 4 7771 = Inr f3"
    "unwrap f3 = Inr (Some ([CHR 0x03, CHR 0x00, CHR 0x00, CHR 0x00] @ ''1''), Some 4, Some 7771, None, [])"
    using wrap_reliable_stream_ok [of 4 7771 "[CHR 0x03, CHR 0x00, CHR 0x00, CHR 0x00] @ ''1''"]
    by (auto simp: stuff_plain [simplified])
  define A0 where "A0 = start_thread (new_client\<lparr>CHUNK_SIZE := 2\<rparr>)
    (Handle_file_send (map of_char ''hello.txt''))"
  have s: "send_file (new_client\<lparr>CHUNK_SIZE := 2\<rparr>) True (map of_char ''hello.txt'') = (None, A0)"
    "threads A0 = [Listen, Handle_file_send (map of_char ''hello.txt'')]"
    by (simp_all add: send_file_def A0_def start_thread_def new_client_fields)
  have a: "CHUNK_SIZE A0 = 2" "FILE_TRANSFER_STREAMS A0 = [7771, 7772, 7773, 7774]"
    "file_stream_id_to_is_available A0 7771 = Some True" "next_message_id A0 = 0"
    "peer_sent A0 = []"
    by (simp_all add: A0_def start_thread_def new_client_fields)
  from sender [OF f0(1) f1(1) f2(1) f3(1) a] receiver [OF f0(2) f1(2) f2(2) f3(2)]
    f0(1) f1(1) f2(1) f3(1) s
  show ?thesis by blast
qed




end

